theory Spec2Isabelle
  imports Complex_Main
begin

section \<open>JavaScript strings and regular expressions\<close>

text \<open>
  A JavaScript string is a sequence of UTF-16 code units. The embedding uses \<open>string\<close>,
  whose characters are the code units below 256; no pattern of the extension mentions
  a code unit above that range. A confidence (an IEEE double in the source) is an exact
  rational: the analyzer divides two small counts, multiplies by 100 and compares with 30.
\<close>

definition isLineTerminator :: "char \<Rightarrow> bool" where
  \<comment> \<open>line feed and carriage return (U+2028 and U+2029 lie outside the range)\<close>
  "isLineTerminator c \<longleftrightarrow> c = CHR 0x0A \<or> c = CHR 0x0D"

definition isWhiteSpace :: "char \<Rightarrow> bool" where
  \<comment> \<open>what \<open>\s\<close> and \<open>trim\<close> take: tab, vertical tab, form feed, space, no-break space,
      and the line terminators\<close>
  "isWhiteSpace c \<longleftrightarrow>
     c = CHR 0x09 \<or> c = CHR 0x0B \<or> c = CHR 0x0C \<or> c = CHR 0x20 \<or> c = CHR 0xA0 \<or>
     isLineTerminator c"

datatype cclass =
    CChar char       \<comment> \<open>a literal character\<close>
  | CNotChar char    \<comment> \<open>\<open>[^c]\<close>\<close>
  | CSpace           \<comment> \<open>\<open>\s\<close>\<close>
  | CDot             \<comment> \<open>\<open>.\<close> without the s flag\<close>
  | CAll             \<comment> \<open>\<open>[\s\S]\<close>\<close>

fun in_class :: "cclass \<Rightarrow> char \<Rightarrow> bool" where
  "in_class (CChar c) x = (x = c)"
| "in_class (CNotChar c) x = (x \<noteq> c)"
| "in_class CSpace x = isWhiteSpace x"
| "in_class CDot x = (\<not> isLineTerminator x)"
| "in_class CAll x = True"

text \<open>
  The regular expressions of the extension quantify single characters only, so the
  quantifiers take a character class. \<open>Group n r\<close> is the \<open>n\<close>-th capturing group,
  \<open>Dollar\<close> is \<open>$\<close>, \<open>Alt\<close> is \<open>|\<close> (a non-capturing group needs no constructor).
\<close>

datatype rex =
    Atom cclass
  | Star cclass | Plus cclass
  | LazyStar cclass | LazyPlus cclass
  | Seq rex rex
  | Alt rex rex
  | Group nat rex
  | Dollar
  | Empty

type_synonym captures = "(nat \<times> string) list"

text \<open>
  \<open>ms multiline r s caps\<close> lists, in the order in which a backtracking matcher tries
  them, the ways \<open>r\<close> matches a prefix of \<open>s\<close>: each as the unread rest of \<open>s\<close> with
  the captures made. The head of the list is the match JavaScript reports; the later
  elements are the alternatives it would backtrack into.
\<close>

fun ms :: "bool \<Rightarrow> rex \<Rightarrow> string \<Rightarrow> captures \<Rightarrow> (string \<times> captures) list" where
  "ms m (Atom c) s caps =
     (case s of [] \<Rightarrow> [] | x # xs \<Rightarrow> if in_class c x then [(xs, caps)] else [])"
| "ms m (Star c) s caps =
     map (\<lambda>k. (drop k s, caps)) (rev [0 ..< Suc (length (takeWhile (in_class c) s))])"
| "ms m (Plus c) s caps =
     map (\<lambda>k. (drop k s, caps)) (rev [1 ..< Suc (length (takeWhile (in_class c) s))])"
| "ms m (LazyStar c) s caps =
     map (\<lambda>k. (drop k s, caps)) [0 ..< Suc (length (takeWhile (in_class c) s))]"
| "ms m (LazyPlus c) s caps =
     map (\<lambda>k. (drop k s, caps)) [1 ..< Suc (length (takeWhile (in_class c) s))]"
| "ms m (Seq a b) s caps =
     concat (map (\<lambda>(s', caps'). ms m b s' caps') (ms m a s caps))"
| "ms m (Alt a b) s caps = ms m a s caps @ ms m b s caps"
| "ms m (Group n r) s caps =
     map (\<lambda>(s', caps'). (s', (n, take (length s - length s') s) # caps')) (ms m r s caps)"
| "ms m Dollar s caps =
     (case s of [] \<Rightarrow> [(s, caps)]
      | x # xs \<Rightarrow> if m \<and> isLineTerminator x then [(s, caps)] else [])"
| "ms m Empty s caps = [(s, caps)]"

text \<open>
  \<open>search m r pre s\<close>: the leftmost match of \<open>r\<close> in \<open>s\<close>, trying every start position
  from the left; \<open>pre\<close> is the text already skipped. The result is the text before the
  match, the text after it, and the captures.
\<close>

fun search :: "bool \<Rightarrow> rex \<Rightarrow> string \<Rightarrow> string \<Rightarrow> (string \<times> string \<times> captures) option" where
  "search m r pre [] =
     (case ms m r [] [] of [] \<Rightarrow> None | (rest, caps) # _ \<Rightarrow> Some (pre, rest, caps))"
| "search m r pre (c # cs) =
     (case ms m r (c # cs) [] of
        [] \<Rightarrow> search m r (pre @ [c]) cs
      | (rest, caps) # _ \<Rightarrow> Some (pre, rest, caps))"

definition regex_match :: "rex \<Rightarrow> string \<Rightarrow> captures option" where
  \<comment> \<open>\<open>str.match(re)\<close> for a regular expression without flags: the groups, or null\<close>
  "regex_match r s = map_option (\<lambda>(pre, rest, caps). caps) (search False r [] s)"

definition regex_test :: "rex \<Rightarrow> string \<Rightarrow> bool" where
  \<comment> \<open>\<open>re.test(str)\<close> for a regular expression without flags\<close>
  "regex_test r s \<longleftrightarrow> search False r [] s \<noteq> None"

definition regex_replace :: "rex \<Rightarrow> string \<Rightarrow> string \<Rightarrow> string" where
  \<comment> \<open>\<open>str.replace(re, rep)\<close> without the g flag: the first match only\<close>
  "regex_replace r rep s =
     (case search False r [] s of None \<Rightarrow> s | Some (pre, rest, caps) \<Rightarrow> pre @ rep @ rest)"

function replace_all :: "bool \<Rightarrow> rex \<Rightarrow> string \<Rightarrow> string \<Rightarrow> string" where
  "replace_all m r rep s =
     (case ms m r s [] of
        (rest, caps) # _ \<Rightarrow>
          if length rest < length s then rep @ replace_all m r rep rest
          else (case s of [] \<Rightarrow> rep | c # cs \<Rightarrow> rep @ c # replace_all m r rep cs)
      | [] \<Rightarrow> (case s of [] \<Rightarrow> [] | c # cs \<Rightarrow> c # replace_all m r rep cs))"
  by pat_completeness auto
termination
  by (relation "measure (\<lambda>(m, r, rep, s). length s)") auto

subsection \<open>Regular expressions built from a string\<close>

text \<open>
  \<open>new RegExp(src)\<close> parses its source at run time. The embedding covers the sources
  made of literal characters, \<open>.\<close> and the quantifier \<open>*\<close>, which is what a wildcard
  pattern of a signature turns into. A \<open>*\<close> with nothing to repeat is the SyntaxError
  of the source; the other syntax characters are not embedded.
\<close>

datatype compiled = Compiled rex | SyntaxError | NotEmbedded

definition otherSyntaxChars :: "char set" where
  "otherSyntaxChars = insert (CHR 0x5C) (set ''^$+?()[]{}|'')"

fun compile :: "string \<Rightarrow> compiled" where
  "compile [] = Compiled Empty"
| "compile (c # cs) =
     (if c = CHR ''*'' then SyntaxError
      else if c \<in> otherSyntaxChars then NotEmbedded
      else
        let a = (if c = CHR ''.'' then CDot else CChar c) in
        case cs of
          x # cs' \<Rightarrow>
            if x = CHR ''*'' then
              (case compile cs' of Compiled r \<Rightarrow> Compiled (Seq (Star a) r) | e \<Rightarrow> e)
            else
              (case compile cs of Compiled r \<Rightarrow> Compiled (Seq (Atom a) r) | e \<Rightarrow> e)
        | [] \<Rightarrow> Compiled (Seq (Atom a) Empty))"

definition js_RegExp :: "string \<Rightarrow> (string \<Rightarrow> bool) option" where
  \<comment> \<open>the constructor followed by \<open>test\<close>; \<open>None\<close> is the exception thrown. A source
      outside the embedded syntax gets \<open>None\<close> as well; the examples below give it the
      declared patterns only, and every general statement about the analyzer is made
      for an arbitrary \<open>RegExp\<close> service.\<close>
  "js_RegExp src =
     (case compile src of Compiled r \<Rightarrow> Some (regex_test r) | SyntaxError \<Rightarrow> None
      | NotEmbedded \<Rightarrow> None)"

section \<open>The project type analyzer\<close>

text \<open>
  \<open>ProjectType\<close> is the interface of that name. The analyzer reads the file system and
  compiles regular expressions; these services of the platform are the \<open>runtime\<close>:
  \<open>fs.existsSync\<close>, \<open>fs.readdirSync\<close> (\<open>None\<close> when it throws), \<open>path.join\<close> and
  \<open>new RegExp(src)\<close> with its \<open>test\<close> (\<open>None\<close> when the constructor throws).
\<close>

record ProjectType =
  name :: string
  detected :: bool
  files :: "string list"
  patterns :: "string list"
  confidence :: rat

record runtime =
  existsSync :: "string \<Rightarrow> bool"
  readdirSync :: "string \<Rightarrow> string list option"
  path_join :: "string \<Rightarrow> string \<Rightarrow> string"
  RegExp :: "string \<Rightarrow> (string \<Rightarrow> bool) option"

definition projectTypes :: "ProjectType list" where
  "projectTypes =
    [\<lparr>name = ''Node.js'', detected = False, files = [''package.json''],
      patterns = [''node_modules/'', ''*.js'', ''*.ts''], confidence = 0\<rparr>,
     \<lparr>name = ''React'', detected = False, files = [''package.json''],
      patterns = [''src/'', ''public/'', ''*.jsx'', ''*.tsx''], confidence = 0\<rparr>,
     \<lparr>name = ''Python'', detected = False,
      files = [''requirements.txt'', ''setup.py'', ''pyproject.toml''],
      patterns = [''*.py'', ''__pycache__/''], confidence = 0\<rparr>]"

definition endsWith :: "string \<Rightarrow> char \<Rightarrow> bool" where
  "endsWith s c \<longleftrightarrow> s \<noteq> [] \<and> last s = c"

fun replace_first :: "char \<Rightarrow> string \<Rightarrow> string \<Rightarrow> string" where
  \<comment> \<open>\<open>s.replace(c, rep)\<close> with a one-character search string: the first occurrence only\<close>
  "replace_first c rep [] = []"
| "replace_first c rep (x # xs) = (if x = c then rep @ xs else x # replace_first c rep xs)"

text \<open>
  The loop over the patterns inside the \<open>try\<close> block, with the counter \<open>detectedPatterns\<close>
  as accumulator. When \<open>new RegExp\<close> throws, the loop is left and the counter keeps the
  value it had.
\<close>

fun checkPatterns :: "runtime \<Rightarrow> string list \<Rightarrow> string list \<Rightarrow> nat \<Rightarrow> nat" where
  "checkPatterns rt listing [] detectedPatterns = detectedPatterns"
| "checkPatterns rt listing (pattern # ps) detectedPatterns =
     (if endsWith pattern CHR ''/'' then
        checkPatterns rt listing ps
          (if list_ex (\<lambda>f. f = butlast pattern) listing
           then Suc detectedPatterns else detectedPatterns)
      else if CHR ''*'' \<in> set pattern then
        (case RegExp rt (replace_first CHR ''*'' ''.*'' pattern) of
           None \<Rightarrow> detectedPatterns
         | Some regex_test' \<Rightarrow>
             checkPatterns rt listing ps
               (if list_ex regex_test' listing then Suc detectedPatterns else detectedPatterns))
      else checkPatterns rt listing ps detectedPatterns)"

definition checkFiles :: "runtime \<Rightarrow> string \<Rightarrow> string list \<Rightarrow> nat" where
  \<comment> \<open>the loop over the key files, with the counter \<open>detectedFiles\<close>\<close>
  "checkFiles rt workspacePath fs =
     foldl (\<lambda>detectedFiles file.
              if existsSync rt (path_join rt workspacePath file)
              then Suc detectedFiles else detectedFiles) 0 fs"

definition analyzeType :: "runtime \<Rightarrow> string \<Rightarrow> ProjectType \<Rightarrow> ProjectType" where
  \<comment> \<open>the body of the loop over \<open>projectTypes\<close>\<close>
  "analyzeType rt workspacePath t =
     (let detectedFiles = checkFiles rt workspacePath (files t);
          detectedPatterns =
            (case readdirSync rt workspacePath of
               None \<Rightarrow> 0
             | Some listing \<Rightarrow> checkPatterns rt listing (patterns t) 0);
          totalChecks = length (files t) + length (patterns t);
          totalDetected = detectedFiles + detectedPatterns;
          c = (if totalChecks > 0 then (of_nat totalDetected / of_nat totalChecks) * 100 else 0)
      in t\<lparr>confidence := c, detected := (c > 30)\<rparr>)"

definition analyzeProject :: "runtime \<Rightarrow> string \<Rightarrow> ProjectType list" where
  "analyzeProject rt workspacePath = map (analyzeType rt workspacePath) projectTypes"

definition reduce :: "('a \<Rightarrow> 'a \<Rightarrow> 'a) \<Rightarrow> 'a list \<Rightarrow> 'a option" where
  \<comment> \<open>\<open>Array.prototype.reduce\<close> without an initial value; \<open>None\<close> is the TypeError on an
      empty array\<close>
  "reduce f xs = (case xs of [] \<Rightarrow> None | x # rest \<Rightarrow> Some (foldl f x rest))"

definition primaryType :: "ProjectType list \<Rightarrow> ProjectType option" where
  \<comment> \<open>the selection in \<open>createRecommendedSettingsCommand\<close>; \<open>None\<close> is its early return
      when nothing is detected\<close>
  "primaryType analysis =
     (let detectedTypes = filter detected analysis in
      if length detectedTypes = 0 then None
      else reduce (\<lambda>prev current. if confidence prev > confidence current then prev else current)
             detectedTypes)"

subsection \<open>What the analyzer is compared with\<close>

definition listingOf :: "runtime \<Rightarrow> string \<Rightarrow> string list" where
  \<comment> \<open>the directory entries, empty when the directory cannot be listed\<close>
  "listingOf rt workspacePath =
     (case readdirSync rt workspacePath of None \<Rightarrow> [] | Some listing \<Rightarrow> listing)"

definition patternMatched :: "runtime \<Rightarrow> string list \<Rightarrow> string \<Rightarrow> bool" where
  \<comment> \<open>a pattern is matched when some entry satisfies it\<close>
  "patternMatched rt listing pattern \<longleftrightarrow>
     (if endsWith pattern CHR ''/'' then butlast pattern \<in> set listing
      else if CHR ''*'' \<in> set pattern then
        (case RegExp rt (replace_first CHR ''*'' ''.*'' pattern) of
           None \<Rightarrow> False | Some t \<Rightarrow> (\<exists>f \<in> set listing. t f))
      else False)"

definition matchedFiles :: "runtime \<Rightarrow> string \<Rightarrow> ProjectType \<Rightarrow> nat" where
  "matchedFiles rt workspacePath t =
     length (filter (\<lambda>file. existsSync rt (path_join rt workspacePath file)) (files t))"

definition matchedPatterns :: "runtime \<Rightarrow> string \<Rightarrow> ProjectType \<Rightarrow> nat" where
  "matchedPatterns rt workspacePath t =
     length (filter (patternMatched rt (listingOf rt workspacePath)) (patterns t))"

definition percent :: "nat \<Rightarrow> nat \<Rightarrow> rat" where
  \<comment> \<open>so many of so many checks, as a percentage\<close>
  "percent matched n = 100 * of_nat matched / of_nat n"

definition compilable :: "runtime \<Rightarrow> ProjectType \<Rightarrow> bool" where
  \<comment> \<open>every wildcard pattern of the signature is the source of a regular expression\<close>
  "compilable rt t \<longleftrightarrow>
     (\<forall>p \<in> set (patterns t). \<not> endsWith p CHR ''/'' \<and> CHR ''*'' \<in> set p \<longrightarrow>
        RegExp rt (replace_first CHR ''*'' ''.*'' p) \<noteq> None)"

definition posix_runtime :: "string list \<Rightarrow> (string \<rightharpoonup> string list) \<Rightarrow> runtime" where
  \<comment> \<open>a file system given by the paths that exist and the directories that can be listed\<close>
  "posix_runtime existing listings =
     \<lparr>existsSync = (\<lambda>p. p \<in> set existing), readdirSync = listings,
      path_join = (\<lambda>a b. a @ ''/'' @ b), RegExp = js_RegExp\<rparr>"

section \<open>The documentation catalogue\<close>

text \<open>
  An entry of \<open>configDocs\<close>; the fields \<open>type\<close>, \<open>default\<close> and \<open>enum\<close> of the source carry
  a prime here. The table below is the object literal of \<open>src/extension.ts\<close>; the unnamed
  variant of the extension holds a longer literal of the same shape, and
  \<open>getConfigDocumentation\<close> takes the table as an argument so that it covers both.
\<close>

record DocumentationEntry =
  description :: string
  type' :: string
  default' :: "string option"
  enum' :: "string list option"
  enumDescriptions :: "(string \<times> string) list option"

definition configDocs :: "(string \<times> DocumentationEntry) list" where
  "configDocs =
    [(''editor.tabSize'',
      \<lparr>description = ''The number of spaces a tab is equal to. This setting is overridden based on the file contents when editor.detectIndentation is true.'',
       type' = ''number'',
       default' = Some ''4'',
       enum' = None,
       enumDescriptions = None\<rparr>),
     (''editor.insertSpaces'',
      \<lparr>description = ''Insert spaces when pressing Tab. This setting is overridden based on the file contents when editor.detectIndentation is true.'',
       type' = ''boolean'',
       default' = Some ''true'',
       enum' = None,
       enumDescriptions = None\<rparr>),
     (''editor.fontSize'',
      \<lparr>description = ''Controls the font size in pixels.'',
       type' = ''number'',
       default' = Some ''14'',
       enum' = None,
       enumDescriptions = None\<rparr>),
     (''editor.fontFamily'',
      \<lparr>description = ''Controls the font family.'',
       type' = ''string'',
       default' = Some (''Consolas, '' @ [CHR 0x22] @ ''Courier New'' @ [CHR 0x22] @ '', monospace''),
       enum' = None,
       enumDescriptions = None\<rparr>),
     (''editor.fontWeight'',
      \<lparr>description = ''Controls the font weight. Accepts normal and bold keywords or numbers between 1 and 1000.'',
       type' = ''string|number'',
       default' = Some ''normal'',
       enum' = Some [''normal'', ''bold'', ''100'', ''200'', ''300'', ''400'', ''500'', ''600'', ''700'', ''800'', ''900''],
       enumDescriptions = Some [(''normal'', ''Normal font weight (equivalent to 400)''),
          (''bold'', ''Bold font weight (equivalent to 700)''),
          (''100'', ''Thin''),
          (''200'', ''Extra Light''),
          (''300'', ''Light''),
          (''400'', ''Normal''),
          (''500'', ''Medium''),
          (''600'', ''Semi Bold''),
          (''700'', ''Bold''),
          (''800'', ''Extra Bold''),
          (''900'', ''Black'')]\<rparr>),
     (''editor.wordWrap'',
      \<lparr>description = ''Controls how lines should wrap.'',
       type' = ''string'',
       default' = Some ''off'',
       enum' = Some [''off'', ''on'', ''wordWrapColumn'', ''bounded''],
       enumDescriptions = Some [(''off'', ''Lines will never wrap''),
          (''on'', ''Lines will wrap at the viewport width''),
          (''wordWrapColumn'', ''Lines will wrap at editor.wordWrapColumn''),
          (''bounded'', ''Lines will wrap at min(viewport, editor.wordWrapColumn)'')]\<rparr>),
     (''editor.lineNumbers'',
      \<lparr>description = ''Controls the display of line numbers.'',
       type' = ''string'',
       default' = Some ''on'',
       enum' = Some [''off'', ''on'', ''relative'', ''interval''],
       enumDescriptions = Some [(''off'', ''Line numbers are not rendered''),
          (''on'', ''Line numbers are rendered as absolute number''),
          (''relative'', ''Line numbers are rendered as distance to cursor line''),
          (''interval'', ''Line numbers are rendered every 10 lines'')]\<rparr>),
     (''editor.minimap.enabled'',
      \<lparr>description = ''Controls whether the minimap is shown.'',
       type' = ''boolean'',
       default' = Some ''true'',
       enum' = None,
       enumDescriptions = None\<rparr>),
     (''editor.formatOnSave'',
      \<lparr>description = ''Format a file on save. A formatter must be available.'',
       type' = ''boolean'',
       default' = Some ''false'',
       enum' = None,
       enumDescriptions = None\<rparr>),
     (''editor.formatOnPaste'',
      \<lparr>description = ''Format the line after typing. Requires a formatter to be available.'',
       type' = ''boolean'',
       default' = Some ''false'',
       enum' = None,
       enumDescriptions = None\<rparr>),
     (''editor.bracketPairColorization.enabled'',
      \<lparr>description = ''Controls whether bracket pair colorization is enabled or not.'',
       type' = ''boolean'',
       default' = Some ''true'',
       enum' = None,
       enumDescriptions = None\<rparr>),
     (''files.autoSave'',
      \<lparr>description = ''Controls auto save of dirty editors.'',
       type' = ''string'',
       default' = Some ''off'',
       enum' = Some [''off'', ''afterDelay'', ''onFocusChange'', ''onWindowChange''],
       enumDescriptions = Some [(''off'', ''An editor with changes is never automatically saved''),
          (''afterDelay'', ''An editor with changes is automatically saved after the configured files.autoSaveDelay''),
          (''onFocusChange'', ''An editor with changes is automatically saved when the editor loses focus''),
          (''onWindowChange'', ''An editor with changes is automatically saved when the window loses focus'')]\<rparr>),
     (''files.autoSaveDelay'',
      \<lparr>description = ''Controls the delay in ms after which a dirty editor is saved automatically.'',
       type' = ''number'',
       default' = Some ''1000'',
       enum' = None,
       enumDescriptions = None\<rparr>),
     (''files.exclude'',
      \<lparr>description = ''Configure glob patterns for excluding files and folders.'',
       type' = ''object'',
       default' = Some ''{}'',
       enum' = None,
       enumDescriptions = None\<rparr>),
     (''files.trimTrailingWhitespace'',
      \<lparr>description = ''When enabled, will trim trailing whitespace when saving a file.'',
       type' = ''boolean'',
       default' = Some ''false'',
       enum' = None,
       enumDescriptions = None\<rparr>),
     (''workbench.colorTheme'',
      \<lparr>description = ''Specifies the color theme used in the workbench.'',
       type' = ''string'',
       default' = Some ''Default Dark+'',
       enum' = None,
       enumDescriptions = None\<rparr>),
     (''workbench.iconTheme'',
      \<lparr>description = ''Specifies the icon theme used in the workbench.'',
       type' = ''string'',
       default' = Some ''vs-seti'',
       enum' = None,
       enumDescriptions = None\<rparr>),
     (''workbench.startupEditor'',
      \<lparr>description = ''Controls which editor is shown at startup.'',
       type' = ''string'',
       default' = Some ''welcomePage'',
       enum' = Some [''none'', ''welcomePage'', ''readme'', ''newUntitledFile'', ''welcomePageInEmptyWorkbench''],
       enumDescriptions = Some [(''none'', ''Start without an editor''),
          (''welcomePage'', ''Open the Welcome page''),
          (''readme'', ''Open the README when opening a folder that contains one''),
          (''newUntitledFile'', ''Open a new untitled file''),
          (''welcomePageInEmptyWorkbench'', ''Open the Welcome page when opening an empty workbench'')]\<rparr>),
     (''workbench.editor.enablePreview'',
      \<lparr>description = ''Controls whether opened editors show as preview editors.'',
       type' = ''boolean'',
       default' = Some ''true'',
       enum' = None,
       enumDescriptions = None\<rparr>),
     (''workbench.activityBar.visible'',
      \<lparr>description = ''Controls the visibility of the activity bar in the workbench.'',
       type' = ''boolean'',
       default' = Some ''true'',
       enum' = None,
       enumDescriptions = None\<rparr>),
     (''terminal.integrated.fontSize'',
      \<lparr>description = ''Controls the font size in pixels of the terminal.'',
       type' = ''number'',
       default' = Some ''14'',
       enum' = None,
       enumDescriptions = None\<rparr>),
     (''git.enabled'',
      \<lparr>description = ''Whether git is enabled.'',
       type' = ''boolean'',
       default' = Some ''true'',
       enum' = None,
       enumDescriptions = None\<rparr>),
     (''git.autofetch'',
      \<lparr>description = ''Whether auto fetching is enabled.'',
       type' = ''boolean'',
       default' = Some ''false'',
       enum' = None,
       enumDescriptions = None\<rparr>),
     (''name'',
      \<lparr>description = ''Name of the configuration; appears in the launch configuration dropdown menu.'',
       type' = ''string'',
       default' = Some ''Launch Program'',
       enum' = None,
       enumDescriptions = None\<rparr>),
     (''type'',
      \<lparr>description = ''Type of configuration launcher to use.'',
       type' = ''string'',
       default' = Some ''node'',
       enum' = Some [''node'', ''chrome'', ''extensionHost'', ''python'', ''go'', ''java'', ''php'', ''ruby'', ''lldb'', ''cppdbg'', ''coreclr''],
       enumDescriptions = Some [(''node'', ''For debugging Node.js applications''),
          (''chrome'', ''For debugging web applications in Chrome''),
          (''extensionHost'', ''For debugging VS Code extensions''),
          (''python'', ''For debugging Python applications''),
          (''go'', ''For debugging Go applications''),
          (''java'', ''For debugging Java applications''),
          (''php'', ''For debugging PHP applications''),
          (''ruby'', ''For debugging Ruby applications''),
          (''lldb'', ''For debugging C/C++/Objective-C applications with LLDB''),
          (''cppdbg'', ''For debugging C/C++ applications with GDB/LLDB''),
          (''coreclr'', ''For debugging .NET Core applications'')]\<rparr>),
     (''request'',
      \<lparr>description = ''Request type of the configuration.'',
       type' = ''string'',
       default' = Some ''launch'',
       enum' = Some [''launch'', ''attach''],
       enumDescriptions = Some [(''launch'', ''Launch a new instance of the program''),
          (''attach'', ''Attach to an already running instance'')]\<rparr>),
     (''program'',
      \<lparr>description = ''Absolute path to the program.'',
       type' = ''string'',
       default' = Some ''${workspaceFolder}/app.js'',
       enum' = None,
       enumDescriptions = None\<rparr>),
     (''args'',
      \<lparr>description = ''Command line arguments passed to the program.'',
       type' = ''array'',
       default' = Some ''[]'',
       enum' = None,
       enumDescriptions = None\<rparr>),
     (''cwd'',
      \<lparr>description = ''Absolute path to the working directory of the program being debugged.'',
       type' = ''string'',
       default' = Some ''${workspaceFolder}'',
       enum' = None,
       enumDescriptions = None\<rparr>),
     (''env'',
      \<lparr>description = ''Environment variables passed to the program.'',
       type' = ''object'',
       default' = Some ''{}'',
       enum' = None,
       enumDescriptions = None\<rparr>),
     (''console'',
      \<lparr>description = ''Where to launch the debug target.'',
       type' = ''string'',
       default' = Some ''integratedTerminal'',
       enum' = Some [''internalConsole'', ''integratedTerminal'', ''externalTerminal''],
       enumDescriptions = Some [(''internalConsole'', ''VS Code Debug Console''),
          (''integratedTerminal'', (''VS Code'' @ [CHR 0x27] @ ''s integrated terminal'')),
          (''externalTerminal'', ''External terminal'')]\<rparr>),
     (''port'',
      \<lparr>description = ''Debug port to attach to.'',
       type' = ''number'',
       default' = Some ''9229'',
       enum' = None,
       enumDescriptions = None\<rparr>),
     (''skipFiles'',
      \<lparr>description = ''An array of glob patterns to skip when debugging.'',
       type' = ''array'',
       default' = Some ''[]'',
       enum' = None,
       enumDescriptions = None\<rparr>),
     (''stopOnEntry'',
      \<lparr>description = ''Automatically stop after launch.'',
       type' = ''boolean'',
       default' = Some ''false'',
       enum' = None,
       enumDescriptions = None\<rparr>),
     (''sourceMaps'',
      \<lparr>description = ''Use JavaScript source maps (if they exist).'',
       type' = ''boolean'',
       default' = Some ''true'',
       enum' = None,
       enumDescriptions = None\<rparr>),
     (''version'',
      \<lparr>description = ''Version of the debug configuration format.'',
       type' = ''string'',
       default' = Some ''0.2.0'',
       enum' = None,
       enumDescriptions = None\<rparr>),
     (''configurations'',
      \<lparr>description = ''List of configurations. Each configuration is a separate debug session.'',
       type' = ''array'',
       default' = Some ''[]'',
       enum' = None,
       enumDescriptions = None\<rparr>),
     (''recommendations'',
      \<lparr>description = ''List of extensions recommended for users of this workspace.'',
       type' = ''array'',
       default' = Some ''[]'',
       enum' = None,
       enumDescriptions = None\<rparr>),
     (''unwantedRecommendations'',
      \<lparr>description = ''List of extensions not recommended for users of this workspace.'',
       type' = ''array'',
       default' = Some ''[]'',
       enum' = None,
       enumDescriptions = None\<rparr>)]"

text \<open>
  \<open>(configDocs as any)[key]\<close> is the property lookup of JavaScript. An own property of
  the literal wins (the last one, were a key written twice). A key that is not an own
  property is looked up along the prototype chain, that is in \<open>Object.prototype\<close>, whose
  members are functions (for \<open>__proto__\<close>, the prototype object itself). Any other key
  gives \<open>undefined\<close>.
\<close>

definition objectPrototypeMembers :: "string list" where
  "objectPrototypeMembers =
     [''constructor'', ''__defineGetter__'', ''__defineSetter__'', ''hasOwnProperty'',
      ''__lookupGetter__'', ''__lookupSetter__'', ''isPrototypeOf'', ''propertyIsEnumerable'',
      ''toString'', ''valueOf'', ''__proto__'', ''toLocaleString'']"

datatype property =
    Documented DocumentationEntry   \<comment> \<open>an entry object\<close>
  | Inherited string                \<comment> \<open>the member of \<open>Object.prototype\<close> of that name\<close>
  | Undefined

definition js_get :: "(string \<times> DocumentationEntry) list \<Rightarrow> string \<Rightarrow> property" where
  "js_get docs k =
     (case map_of (rev docs) k of
        Some e \<Rightarrow> Documented e
      | None \<Rightarrow> if k \<in> set objectPrototypeMembers then Inherited k else Undefined)"

definition noDocumentation :: DocumentationEntry where
  "noDocumentation =
     \<lparr>description = ''No documentation available for this configuration.'',
      type' = ''unknown'', default' = None, enum' = None, enumDescriptions = None\<rparr>"

definition getConfigDocumentation :: "(string \<times> DocumentationEntry) list \<Rightarrow> string \<Rightarrow> property" where
  \<comment> \<open>\<open>docs[key] || { ... }\<close>: objects and functions are truthy, \<open>undefined\<close> is not\<close>
  "getConfigDocumentation docs k =
     (case js_get docs k of Undefined \<Rightarrow> Documented noDocumentation | v \<Rightarrow> v)"

section \<open>Configuration files\<close>

definition basename :: "string \<Rightarrow> string" where
  \<comment> \<open>\<open>path.basename\<close> on a POSIX platform: trailing separators are dropped, then the
      text after the last separator is taken\<close>
  "basename p =
     rev (takeWhile (\<lambda>c. c \<noteq> CHR ''/'') (dropWhile (\<lambda>c. c = CHR ''/'') (rev p)))"

fun str_includes :: "string \<Rightarrow> string \<Rightarrow> bool" where
  \<comment> \<open>\<open>s.includes(sub)\<close>: \<open>sub\<close> occurs somewhere in \<open>s\<close>\<close>
  "str_includes [] sub = (sub = [])"
| "str_includes (c # cs) sub = (take (length sub) (c # cs) = sub \<or> str_includes cs sub)"

definition isConfigFile :: "string \<Rightarrow> bool" where
  "isConfigFile filePath =
     (let configFileNames = [''settings.json'', ''launch.json'', ''extensions.json''];
          fileName = basename filePath;
          isInVscodeDir = str_includes filePath ''.vscode''
      in isInVscodeDir \<and> fileName \<in> set configFileNames)"

fun splitOn :: "char \<Rightarrow> string \<Rightarrow> string \<Rightarrow> string list" where
  "splitOn sep cur [] = [cur]"
| "splitOn sep cur (c # cs) =
     (if c = sep then cur # splitOn sep [] cs else splitOn sep (cur @ [c]) cs)"

definition directoriesOf :: "string \<Rightarrow> string list" where
  \<comment> \<open>the names of the directories a path leads through, outermost first\<close>
  "directoriesOf p = butlast (filter (\<lambda>d. d \<noteq> []) (splitOn CHR ''/'' [] p))"

definition residesInVscode :: "string \<Rightarrow> bool" where
  \<comment> \<open>the file lies in a directory named \<open>.vscode\<close>\<close>
  "residesInVscode p \<longleftrightarrow> directoriesOf p \<noteq> [] \<and> last (directoriesOf p) = ''.vscode''"

section \<open>The property resolver\<close>

subsection \<open>The document and its lines\<close>

fun splitLines :: "string \<Rightarrow> string \<Rightarrow> string list" where
  \<comment> \<open>the lines of a text document: a line ends at CR LF, at LF or at CR\<close>
  "splitLines cur [] = [cur]"
| "splitLines cur (c # cs) =
     (if c = CHR 0x0D then
        (case cs of
           [] \<Rightarrow> cur # splitLines [] cs
         | d # ds \<Rightarrow> if d = CHR 0x0A then cur # splitLines [] ds else cur # splitLines [] cs)
      else if c = CHR 0x0A then cur # splitLines [] cs
      else splitLines (cur @ [c]) cs)"

definition lineAt :: "string \<Rightarrow> nat \<Rightarrow> string option" where
  \<comment> \<open>\<open>document.lineAt(line).text\<close>; \<open>None\<close> is the error thrown for a line out of range\<close>
  "lineAt text line =
     (let ls = splitLines [] text in if line < length ls then Some (ls ! line) else None)"

subsection \<open>The regular expressions of the resolver\<close>

definition dquote :: char where
  "dquote = CHR 0x22"

definition valueTail :: rex where
  \<comment> \<open>the end of the key-value pattern: a comma with white space up to the end, or
      the end\<close>
  "valueTail = Alt (Seq (Atom (CChar CHR '','')) (Seq (Star CSpace) Dollar)) Dollar"

definition keyValuePattern :: rex where
  \<comment> \<open>the quoted key, white space, the colon, white space, a lazy value, the tail\<close>
  "keyValuePattern =
     Seq (Atom (CChar dquote)) (Seq (Group 1 (Plus (CNotChar dquote))) (Seq (Atom (CChar dquote))
       (Seq (Star CSpace) (Seq (Atom (CChar CHR '':'')) (Seq (Star CSpace)
         (Seq (Group 2 (LazyPlus CDot)) valueTail))))))"

definition keyOnlyPattern :: rex where
  "keyOnlyPattern =
     Seq (Atom (CChar dquote)) (Seq (Group 1 (Plus (CNotChar dquote))) (Atom (CChar dquote)))"

definition trailingComma :: rex where
  \<comment> \<open>the pattern of \<open>replace(/,$/, '')\<close>\<close>
  "trailingComma = Seq (Atom (CChar CHR '','')) Dollar"

definition lineComment :: rex where
  \<comment> \<open>two slashes and the rest of the line; used with the flags g and m\<close>
  "lineComment = Seq (Atom (CChar CHR ''/'')) (Seq (Atom (CChar CHR ''/'')) (Seq (Star CDot) Dollar))"

definition blockComment :: rex where
  \<comment> \<open>from slash star to the next star slash; used with the flag g\<close>
  "blockComment =
     Seq (Atom (CChar CHR ''/'')) (Seq (Atom (CChar CHR ''*'')) (Seq (LazyStar CAll)
       (Seq (Atom (CChar CHR ''*'')) (Atom (CChar CHR ''/'')))))"

definition trim :: "string \<Rightarrow> string" where
  "trim s = rev (dropWhile isWhiteSpace (rev (dropWhile isWhiteSpace s)))"

definition cleanComments :: "string \<Rightarrow> string" where
  \<comment> \<open>\<open>cleanText\<close>: line comments removed, then block comments\<close>
  "cleanComments text = replace_all False blockComment [] (replace_all True lineComment [] text)"

record ResolvedProperty =
  key :: string
  value' :: string

subsection \<open>The resolver of src/extension.ts\<close>

definition getPropertyAtPosition :: "string \<Rightarrow> nat \<Rightarrow> ResolvedProperty option" where
  \<comment> \<open>the document is given by its text, the position by its line; \<open>None\<close> is null\<close>
  "getPropertyAtPosition text line =
     (case lineAt text line of
        None \<Rightarrow> None
      | Some currentLineText \<Rightarrow>
          (case regex_match keyValuePattern currentLineText of
             Some kvMatch \<Rightarrow>
               (case (map_of kvMatch 1, map_of kvMatch 2) of
                  (Some g1, Some g2) \<Rightarrow> Some \<lparr>key = g1, value' = trim g2\<rparr>
                | _ \<Rightarrow> None)
           | None \<Rightarrow>
               (case regex_match keyOnlyPattern currentLineText of
                  Some keyMatch \<Rightarrow>
                    (case map_of keyMatch 1 of
                       Some g1 \<Rightarrow> Some \<lparr>key = g1, value' = ''undefined''\<rparr>
                     | None \<Rightarrow> None)
                | None \<Rightarrow> None)))"

subsection \<open>The resolver of the unnamed variant, with structural enrichment\<close>

text \<open>
  The values \<open>JSON.parse\<close> returns. An object is the list of its own properties in the
  order \<open>Object.keys\<close> gives them, each key once. A number is held as the text that
  \<open>String\<close> gives for it (negative zero as \<open>-0\<close>), which names the double exactly.
  \<open>JSON.parse\<close> itself is a service of the platform: the resolver takes it as the
  argument \<open>JSON_parse\<close>, with \<open>None\<close> for the SyntaxError it throws.
\<close>

datatype json =
    JNull | JBool bool | JNum string | JStr string | JArr "json list" | JObj "(string \<times> json) list"

fun truthy :: "json \<Rightarrow> bool" where
  "truthy JNull = False"
| "truthy (JBool b) = b"
| "truthy (JNum n) = (n \<noteq> ''0'' \<and> n \<noteq> ''-0'' \<and> n \<noteq> ''NaN'')"
| "truthy (JStr s) = (s \<noteq> [])"
| "truthy (JArr xs) = True"
| "truthy (JObj kvs) = True"

fun decimal :: "nat \<Rightarrow> string" where
  "decimal n =
     (if n < 10 then [char_of (48 + n)] else decimal (n div 10) @ [char_of (48 + n mod 10)])"

declare decimal.simps [simp del]

definition ownProperty :: "json \<Rightarrow> string \<Rightarrow> json option" where
  \<comment> \<open>the value of an own property: of an object its entries, of an array and of a string
      the indices and \<open>length\<close>\<close>
  "ownProperty v k =
     (case v of
        JObj kvs \<Rightarrow> map_of kvs k
      | JArr xs \<Rightarrow>
          if k = ''length'' then Some (JNum (decimal (length xs)))
          else map_option (\<lambda>i. xs ! i) (find (\<lambda>i. decimal i = k) [0 ..< length xs])
      | JStr s \<Rightarrow>
          if k = ''length'' then Some (JNum (decimal (length s)))
          else map_option (\<lambda>i. JStr [s ! i]) (find (\<lambda>i. decimal i = k) [0 ..< length s])
      | _ \<Rightarrow> None)"

definition objectKeys :: "json \<Rightarrow> string list" where
  "objectKeys v =
     (case v of
        JObj kvs \<Rightarrow> map fst kvs
      | JArr xs \<Rightarrow> map decimal [0 ..< length xs]
      | JStr s \<Rightarrow> map decimal [0 ..< length s]
      | _ \<Rightarrow> [])"

definition hasOwnProperty :: "json \<Rightarrow> string \<Rightarrow> bool option" where
  \<comment> \<open>\<open>v.hasOwnProperty(k)\<close>; \<open>None\<close> is the TypeError when an own property of that name
      hides the method\<close>
  "hasOwnProperty v k =
     (if ownProperty v ''hasOwnProperty'' \<noteq> None then None else Some (ownProperty v k \<noteq> None))"

definition hexDigit :: "nat \<Rightarrow> char" where
  "hexDigit d = (if d < 10 then char_of (48 + d) else char_of (87 + d))"

definition escapeChar :: "char \<Rightarrow> string" where
  \<comment> \<open>how \<open>JSON.stringify\<close> writes a character of a string\<close>
  "escapeChar c =
     (if c = dquote then [CHR 0x5C, dquote]
      else if c = CHR 0x5C then [CHR 0x5C, CHR 0x5C]
      else if c = CHR 0x08 then [CHR 0x5C, CHR ''b'']
      else if c = CHR 0x0C then [CHR 0x5C, CHR ''f'']
      else if c = CHR 0x0A then [CHR 0x5C, CHR ''n'']
      else if c = CHR 0x0D then [CHR 0x5C, CHR ''r'']
      else if c = CHR 0x09 then [CHR 0x5C, CHR ''t'']
      else if (of_char c :: nat) < 32 then
        [CHR 0x5C, CHR ''u'', CHR ''0'', CHR ''0'',
         hexDigit (of_char c div 16), hexDigit (of_char c mod 16)]
      else [c])"

definition quoteJSON :: "string \<Rightarrow> string" where
  "quoteJSON s = [dquote] @ concat (map escapeChar s) @ [dquote]"

fun commaSep :: "string list \<Rightarrow> string" where
  "commaSep [] = []"
| "commaSep [x] = x"
| "commaSep (x # y # zs) = x @ '','' @ commaSep (y # zs)"

fun JSON_stringify :: "json \<Rightarrow> string" where
  "JSON_stringify JNull = ''null''"
| "JSON_stringify (JBool b) = (if b then ''true'' else ''false'')"
| "JSON_stringify (JNum n) =
     (if n = ''NaN'' \<or> n = ''Infinity'' \<or> n = ''-Infinity'' then ''null''
      else if n = ''-0'' then ''0'' else n)"
| "JSON_stringify (JStr s) = quoteJSON s"
| "JSON_stringify (JArr xs) = ''['' @ commaSep (map JSON_stringify xs) @ '']''"
| "JSON_stringify (JObj kvs) =
     ''{'' @ commaSep (map (\<lambda>kv. quoteJSON (fst kv) @ '':'' @ JSON_stringify (snd kv)) kvs) @ ''}''"

definition valueStr :: "json \<Rightarrow> string" where
  \<comment> \<open>a string between quotes as it is, any other value as \<open>JSON.stringify\<close> writes it\<close>
  "valueStr v = (case v of JStr s \<Rightarrow> [dquote] @ s @ [dquote] | _ \<Rightarrow> JSON_stringify v)"

definition isObject :: "json \<Rightarrow> bool" where
  \<comment> \<open>\<open>typeof v === 'object'\<close> for a value that is not null\<close>
  "isObject v = (case v of JArr xs \<Rightarrow> True | JObj kvs \<Rightarrow> True | _ \<Rightarrow> False)"

text \<open>
  The loops over \<open>configurations\<close> and over \<open>tasks\<close>. The result is \<open>None\<close> for an
  exception, \<open>Some None\<close> when no element owns the key.
\<close>

fun findOwner :: "json list \<Rightarrow> string \<Rightarrow> ResolvedProperty option option" where
  "findOwner [] k = Some None"
| "findOwner (config # rest) k =
     (if truthy config \<and> isObject config then
        (case hasOwnProperty config k of
           None \<Rightarrow> None
         | Some True \<Rightarrow>
             (case ownProperty config k of
                Some v \<Rightarrow> Some (Some \<lparr>key = k, value' = valueStr v\<rparr>)
              | None \<Rightarrow> None)
         | Some False \<Rightarrow> findOwner rest k)
      else findOwner rest k)"

definition arrayProperty :: "json \<Rightarrow> string \<Rightarrow> json list option" where
  \<comment> \<open>\<open>v.name && Array.isArray(v.name)\<close>: the elements when the property is an array\<close>
  "arrayProperty v nm = (case ownProperty v nm of Some (JArr xs) \<Rightarrow> Some xs | _ \<Rightarrow> None)"

definition orUnknown :: "string option \<Rightarrow> string" where
  \<comment> \<open>\<open>valueFromLine || 'unknown'\<close>\<close>
  "orUnknown v = (case v of None \<Rightarrow> ''unknown'' | Some s \<Rightarrow> if s = [] then ''unknown'' else s)"

definition enrich :: "json \<Rightarrow> string \<Rightarrow> string option \<Rightarrow> ResolvedProperty option" where
  \<comment> \<open>the block guarded by \<open>jsonObject && keyFromLine\<close>; \<open>None\<close> is an exception\<close>
  "enrich jsonObject keyFromLine valueFromLine =
     (case hasOwnProperty jsonObject keyFromLine of
        None \<Rightarrow> None
      | Some True \<Rightarrow>
          (case ownProperty jsonObject keyFromLine of
             Some v \<Rightarrow> Some \<lparr>key = keyFromLine, value' = valueStr v\<rparr>
           | None \<Rightarrow> None)
      | Some False \<Rightarrow>
          (case (case arrayProperty jsonObject ''configurations'' of
                   Some configs \<Rightarrow> findOwner configs keyFromLine
                 | None \<Rightarrow> Some None) of
             None \<Rightarrow> None
           | Some (Some r) \<Rightarrow> Some r
           | Some None \<Rightarrow>
               (case (case arrayProperty jsonObject ''tasks'' of
                        Some tasks \<Rightarrow> findOwner tasks keyFromLine
                      | None \<Rightarrow> Some None) of
                  None \<Rightarrow> None
                | Some (Some r) \<Rightarrow> Some r
                | Some None \<Rightarrow>
                    Some \<lparr>key = keyFromLine, value' = orUnknown valueFromLine\<rparr>)))"

definition firstProperty :: "json \<Rightarrow> ResolvedProperty option" where
  \<comment> \<open>the fallback on the first key of the parsed document\<close>
  "firstProperty jsonObject =
     (case objectKeys jsonObject of
        [] \<Rightarrow> None
      | firstKey # _ \<Rightarrow>
          if firstKey = [] then None
          else (case ownProperty jsonObject firstKey of
                  Some v \<Rightarrow> Some \<lparr>key = firstKey, value' = valueStr v\<rparr>
                | None \<Rightarrow> None))"

definition lineLocal :: "string \<Rightarrow> (string option \<times> string option) option" where
  \<comment> \<open>\<open>keyFromLine\<close> and \<open>valueFromLine\<close> after the two matches on the current line\<close>
  "lineLocal currentLineText =
     (case regex_match keyValuePattern currentLineText of
        Some kvMatch \<Rightarrow>
          (case (map_of kvMatch 1, map_of kvMatch 2) of
             (Some g1, Some g2) \<Rightarrow> Some (Some g1, Some (regex_replace trailingComma [] (trim g2)))
           | _ \<Rightarrow> None)
      | None \<Rightarrow>
          (case regex_match keyOnlyPattern currentLineText of
             Some keyMatch \<Rightarrow> Some (map_of keyMatch 1, Some ''unknown'')
           | None \<Rightarrow> Some (None, None)))"

definition truthyText :: "string option \<Rightarrow> bool" where
  \<comment> \<open>null and the empty string are falsy\<close>
  "truthyText v = (case v of None \<Rightarrow> False | Some s \<Rightarrow> s \<noteq> [])"

definition getPropertyAtPosition_enriching ::
  "(string \<Rightarrow> json option) \<Rightarrow> string \<Rightarrow> nat \<Rightarrow> ResolvedProperty option" where
  \<comment> \<open>\<open>None\<close> is null, returned directly or from the \<open>catch\<close> around the body\<close>
  "getPropertyAtPosition_enriching JSON_parse text line =
     (let cleanText = cleanComments text in
      case lineAt text line of
        None \<Rightarrow> None
      | Some currentLineText \<Rightarrow>
          (case lineLocal currentLineText of
             None \<Rightarrow> None
           | Some (keyFromLine, valueFromLine) \<Rightarrow>
               if truthyText keyFromLine then
                 map_option (\<lambda>k. \<lparr>key = k, value' = orUnknown valueFromLine\<rparr>) keyFromLine
               else
                 (case JSON_parse cleanText of
                    None \<Rightarrow> None
                  | Some jsonObject \<Rightarrow>
                      if truthy jsonObject \<and> truthyText keyFromLine then
                        (case keyFromLine of
                           Some k \<Rightarrow> enrich jsonObject k valueFromLine
                         | None \<Rightarrow> None)
                      else if truthy jsonObject then firstProperty jsonObject
                      else None)))"

subsection \<open>What the resolver is compared with\<close>

fun firstQuotedToken :: "string \<Rightarrow> string option" where
  \<comment> \<open>the first text on the line that stands between two double quotes and is not empty\<close>
  "firstQuotedToken [] = None"
| "firstQuotedToken (c # cs) =
     (if c = dquote \<and> takeWhile (\<lambda>x. x \<noteq> dquote) cs \<noteq> []
         \<and> length (takeWhile (\<lambda>x. x \<noteq> dquote) cs) < length cs
      then Some (takeWhile (\<lambda>x. x \<noteq> dquote) cs)
      else firstQuotedToken cs)"

definition commaTail :: "string \<Rightarrow> bool" where
  \<comment> \<open>nothing, or a comma followed by white space only: where a value fragment ends\<close>
  "commaTail t \<longleftrightarrow> (case t of [] \<Rightarrow> True | c # ws \<Rightarrow> c = CHR '','' \<and> list_all isWhiteSpace ws)"

definition dropTrailingComma :: "string \<Rightarrow> string" where
  "dropTrailingComma w = (if w \<noteq> [] \<and> last w = CHR '','' then butlast w else w)"

definition anyThenPy :: rex where
  \<comment> \<open>the regular expression with the source \<open>.*.py\<close>\<close>
  "anyThenPy = Seq (Star CDot) (Seq (Atom CDot)
     (Seq (Atom (CChar CHR ''p'')) (Seq (Atom (CChar CHR ''y'')) Empty)))"

fun glob_match :: "string \<Rightarrow> string \<Rightarrow> bool" where
  \<comment> \<open>a pattern read as a file name glob: \<open>*\<close> stands for any text, every other
      character for itself, and the whole name has to be matched\<close>
  "glob_match [] s = (s = [])"
| "glob_match (p # ps) s =
     (if p = CHR ''*'' then list_ex (\<lambda>k. glob_match ps (drop k s)) [0 ..< Suc (length s)]
      else (case s of [] \<Rightarrow> False | c # cs \<Rightarrow> c = p \<and> glob_match ps cs))"

subsection \<open>Example inputs\<close>

definition tenMarkers :: ProjectType where
  "tenMarkers = \<lparr>name = ''Ten'', detected = False,
     files = [''m0'', ''m1'', ''m2'', ''m3'', ''m4'', ''m5'', ''m6'', ''m7'', ''m8'', ''m9''],
     patterns = [], confidence = 0\<rparr>"

definition threeOfTen :: runtime where
  "threeOfTen = posix_runtime [''/ws/m0'', ''/ws/m1'', ''/ws/m2''] [''/ws'' \<mapsto> [''m0'', ''m1'', ''m2'']]"

definition fourOfTen :: runtime where
  "fourOfTen = posix_runtime [''/ws/m0'', ''/ws/m1'', ''/ws/m2'', ''/ws/m3'']
     [''/ws'' \<mapsto> [''m0'', ''m1'', ''m2'', ''m3'']]"

definition noChecks :: ProjectType where
  \<comment> \<open>a signature that declares no marker file and no pattern\<close>
  "noChecks = \<lparr>name = ''Nothing'', detected = False, files = [], patterns = [], confidence = 0\<rparr>"

definition locked :: runtime where
  "locked = posix_runtime [''/locked/package.json'', ''/locked/requirements.txt'',
     ''/locked/setup.py'', ''/locked/pyproject.toml''] Map.empty"

definition tie :: runtime where
  "tie = posix_runtime [''/ws/package.json'']
          [''/ws'' \<mapsto> [''node_modules'', ''a.js'', ''b.ts'', ''src'', ''public'', ''c.jsx'', ''d.tsx'']]"

definition absent :: runtime where
  "absent = posix_runtime [] Map.empty"


definition happy :: runtime where
  "happy = posix_runtime [] [''/ws'' \<mapsto> [''happy'']]"

definition launchText :: string where
  \<comment> \<open>a launch.json whose top level and whose first configuration both have a \<open>type\<close>\<close>
  "launchText =
     ''{'' @ [CHR 0x0A] @
     ''  '' @ [dquote] @ ''type'' @ [dquote] @ '': '' @ [dquote] @ ''node'' @ [dquote] @ '','' @ [CHR 0x0A] @
     ''  '' @ [dquote] @ ''configurations'' @ [dquote] @ '': ['' @ [CHR 0x0A] @
     ''    {'' @ [CHR 0x0A] @
     ''      '' @ [dquote] @ ''type'' @ [dquote] @ '': '' @ [dquote] @ ''python'' @ [dquote] @ [CHR 0x0A] @
     ''    }'' @ [CHR 0x0A] @
     ''  ]'' @ [CHR 0x0A] @
     ''}''"

definition launchJson :: json where
  \<comment> \<open>the value of \<open>launchText\<close>\<close>
  "launchJson =
     JObj [(''type'', JStr ''node''), (''configurations'', JArr [JObj [(''type'', JStr ''python'')]])]"

definition programText :: string where
  \<comment> \<open>a document of one line that holds a quoted token and no colon\<close>
  "programText = [dquote] @ ''program'' @ [dquote]"

definition tabSizeText :: string where
  "tabSizeText = ''  '' @ [dquote] @ ''editor.tabSize'' @ [dquote] @ '': 4,''"

definition commaText :: string where
  \<comment> \<open>a line under edit: the key, the colon and a comma\<close>
  "commaText = [dquote] @ ''a'' @ [dquote] @ '': ,''"

definition exampleParse :: "string \<Rightarrow> json option" where
  \<comment> \<open>\<open>JSON.parse\<close> on the example documents: \<open>launchText\<close> and \<open>programText\<close> are JSON
      texts, the other example documents are not\<close>
  "exampleParse = [launchText \<mapsto> launchJson, programText \<mapsto> JStr ''program'']"

definition remoteSettings :: string where
  \<comment> \<open>the machine settings of a remote server installation\<close>
  "remoteSettings = ''/home/u/.vscode-server/data/Machine/settings.json''"

definition quotedBeforeText :: string where
  \<comment> \<open>a quoted text stands before the key\<close>
  "quotedBeforeText = [dquote] @ ''x'' @ [dquote] @ '' '' @ [dquote] @ ''a'' @ [dquote] @ '': 1''"

definition spacesText :: string where
  \<comment> \<open>a line under edit: the key, the colon and spaces\<close>
  "spacesText = [dquote] @ ''a'' @ [dquote] @ '':   ''"

section \<open>Properties of the analyzer\<close>

subsection \<open>The two counting loops\<close>

lemma checkFiles_acc:
  "foldl (\<lambda>n file. if P file then Suc n else n) k fs = k + length (filter P fs)"
  by (induction fs arbitrary: k) auto

lemma checkFiles_count: "checkFiles rt d (files t) = matchedFiles rt d t"
  unfolding checkFiles_def matchedFiles_def using checkFiles_acc [of _ 0] by simp

lemma checkPatterns_acc:
  "(\<forall>p \<in> set ps. \<not> endsWith p CHR ''/'' \<and> CHR ''*'' \<in> set p \<longrightarrow>
        RegExp rt (replace_first CHR ''*'' ''.*'' p) \<noteq> None) \<Longrightarrow>
   checkPatterns rt listing ps k = k + length (filter (patternMatched rt listing) ps)"
  by (induction ps arbitrary: k) (auto simp: patternMatched_def list_ex_iff split: option.splits)

lemma checkPatterns_count:
  "compilable rt t \<Longrightarrow>
   (case readdirSync rt d of None \<Rightarrow> 0 | Some listing \<Rightarrow> checkPatterns rt listing (patterns t) 0)
     = matchedPatterns rt d t"
  unfolding compilable_def matchedPatterns_def listingOf_def
  by (cases "readdirSync rt d") (auto simp: checkPatterns_acc patternMatched_def split: option.splits)

lemma analyzeType_detected:
  "detected (analyzeType rt d t) = (30 < confidence (analyzeType rt d t))"
  by (simp add: analyzeType_def Let_def)

lemma analyzeType_confidence:
  "compilable rt t \<Longrightarrow>
   confidence (analyzeType rt d t) =
     (if length (files t) + length (patterns t) = 0 then 0
      else 100 * of_nat (matchedFiles rt d t + matchedPatterns rt d t)
             / of_nat (length (files t) + length (patterns t)))"
  using checkPatterns_count [of rt t d] checkFiles_count [of rt d t]
  by (simp add: analyzeType_def Let_def)

lemma compiles:
  "js_RegExp ''.*.js'' \<noteq> None" "js_RegExp ''.*.ts'' \<noteq> None" "js_RegExp ''.*.jsx'' \<noteq> None"
  "js_RegExp ''.*.tsx'' \<noteq> None" "js_RegExp ''.*.py'' \<noteq> None"
  by code_simp+

lemma declared_compilable:
  "RegExp rt = js_RegExp \<Longrightarrow> t \<in> set projectTypes \<Longrightarrow> compilable rt t"
  using compiles by (auto simp: projectTypes_def compilable_def endsWith_def)

lemma declared_have_checks:
  "t \<in> set projectTypes \<Longrightarrow> 0 < length (files t) + length (patterns t)"
  by (auto simp: projectTypes_def)

lemma analyzeType_record:
  "analyzeType rt d t =
     t\<lparr>confidence := confidence (analyzeType rt d t), detected := detected (analyzeType rt d t)\<rparr>"
  by (simp add: analyzeType_def Let_def)

lemma analyzeType_declared:
  assumes "compilable rt t" and "0 < length (files t) + length (patterns t)"
  shows "analyzeType rt d t =
     t\<lparr>confidence := percent (matchedFiles rt d t + matchedPatterns rt d t)
                           (length (files t) + length (patterns t)),
       detected := 30 < percent (matchedFiles rt d t + matchedPatterns rt d t)
                           (length (files t) + length (patterns t))\<rparr>"
proof -
  have c: "confidence (analyzeType rt d t) =
           percent (matchedFiles rt d t + matchedPatterns rt d t)
                           (length (files t) + length (patterns t))"
    using analyzeType_confidence [OF assms(1), of d] assms(2) by (simp add: percent_def)
  have "analyzeType rt d t =
     t\<lparr>confidence := confidence (analyzeType rt d t), detected := detected (analyzeType rt d t)\<rparr>"
    by (rule analyzeType_record)
  then show ?thesis unfolding analyzeType_detected c .
qed

lemma unlistable_confidence:
  "readdirSync rt d = None \<Longrightarrow>
   confidence (analyzeType rt d t) =
     (if length (files t) + length (patterns t) = 0 then 0
      else 100 * of_nat (matchedFiles rt d t) / of_nat (length (files t) + length (patterns t)))"
  using checkFiles_count [of rt d t] by (simp add: analyzeType_def Let_def)

lemma matchedFiles_none:
  "(\<forall>f \<in> set (files t). \<not> existsSync rt (path_join rt d f)) \<Longrightarrow> matchedFiles rt d t = 0"
  by (simp add: matchedFiles_def)

lemma map_const_3:
  "length xs = 3 \<Longrightarrow> \<forall>x \<in> set xs. f x = c \<Longrightarrow> map f xs = [c, c, c]"
proof -
  assume l: "length xs = 3" and a: "\<forall>x \<in> set xs. f x = c"
  from a have "map f xs = map (\<lambda>_. c) xs" by simp
  also have "\<dots> = replicate (length xs) c" by (simp add: map_replicate_const)
  also have "\<dots> = [c, c, c]" by (simp add: l numeral_3_eq_3)
  finally show ?thesis .
qed

subsection \<open>Confidence and detection\<close>

text \<open>
  Claim C6. Where the wildcard patterns of the declared signatures are sources of
  regular expressions (on the platform they are), the analysis returns the declared
  signatures in their order, each with the confidence 100 times the number of its
  marker files that exist plus the number of its patterns that some directory entry
  satisfies, divided by the number of its files and patterns, and detected exactly
  when that confidence exceeds 30. A pattern counts once however many entries satisfy
  it, so the matched patterns are at most the declared ones. A signature without any
  check would get the confidence 0 and would not be detected.
\<close>

theorem confidence_formula:
  assumes "\<forall>t \<in> set projectTypes. compilable rt t"
  shows "analyzeProject rt workspacePath =
           map (\<lambda>t. t\<lparr>confidence :=
                         percent (matchedFiles rt workspacePath t + matchedPatterns rt workspacePath t)
                           (length (files t) + length (patterns t)),
                       detected :=
                         30 < percent (matchedFiles rt workspacePath t + matchedPatterns rt workspacePath t)
                           (length (files t) + length (patterns t))\<rparr>)
             projectTypes
       \<and> (\<forall>r \<in> set (analyzeProject rt workspacePath). detected r = (30 < confidence r))
       \<and> (\<forall>t \<in> set projectTypes. matchedPatterns rt workspacePath t \<le> length (patterns t))
       \<and> (\<forall>t. files t = [] \<and> patterns t = [] \<longrightarrow>
              confidence (analyzeType rt workspacePath t) = 0
              \<and> \<not> detected (analyzeType rt workspacePath t))"
proof -
  have a: "analyzeProject rt workspacePath =
           map (\<lambda>t. t\<lparr>confidence :=
                         percent (matchedFiles rt workspacePath t + matchedPatterns rt workspacePath t)
                           (length (files t) + length (patterns t)),
                       detected :=
                         30 < percent (matchedFiles rt workspacePath t + matchedPatterns rt workspacePath t)
                           (length (files t) + length (patterns t))\<rparr>)
             projectTypes"
    unfolding analyzeProject_def
  proof (rule map_cong [OF refl])
    fix t assume t: "t \<in> set projectTypes"
    then have "compilable rt t" using assms by blast
    then show "analyzeType rt workspacePath t =
      t\<lparr>confidence :=
           percent (matchedFiles rt workspacePath t + matchedPatterns rt workspacePath t)
                           (length (files t) + length (patterns t)),
         detected :=
           30 < percent (matchedFiles rt workspacePath t + matchedPatterns rt workspacePath t)
                           (length (files t) + length (patterns t))\<rparr>"
      using declared_have_checks [OF t] by (rule analyzeType_declared)
  qed
  have b: "\<forall>r \<in> set (analyzeProject rt workspacePath). detected r = (30 < confidence r)"
    by (auto simp: analyzeProject_def analyzeType_detected)
  have c: "\<forall>t \<in> set projectTypes. matchedPatterns rt workspacePath t \<le> length (patterns t)"
    by (simp add: matchedPatterns_def)
  have d: "\<forall>t. files t = [] \<and> patterns t = [] \<longrightarrow>
              confidence (analyzeType rt workspacePath t) = 0
              \<and> \<not> detected (analyzeType rt workspacePath t)"
    by (simp add: analyzeType_def Let_def checkFiles_def split: option.splits)
  show ?thesis using a b c d by blast
qed

theorem confidence_formula_witness:
  "map name (analyzeProject tie ''/ws'') = [''Node.js'', ''React'', ''Python'']
   \<and> map (matchedFiles tie ''/ws'') projectTypes = [1, 1, 0]
   \<and> map (matchedPatterns tie ''/ws'') projectTypes = [3, 4, 0]
   \<and> map confidence (analyzeProject tie ''/ws'') = [100, 100, 0]
   \<and> map detected (analyzeProject tie ''/ws'') = [True, True, False]
   \<and> files noChecks = [] \<and> patterns noChecks = []
   \<and> confidence (analyzeType tie ''/ws'' noChecks) = 0
   \<and> \<not> detected (analyzeType tie ''/ws'' noChecks)"
proof -
  have h: "\<forall>t \<in> set projectTypes. compilable tie t"
  proof
    fix t assume "t \<in> set projectTypes"
    moreover have "RegExp tie = js_RegExp" by (simp add: tie_def posix_runtime_def)
    ultimately show "compilable tie t" by (intro declared_compilable)
  qed
  have f: "map (matchedFiles tie ''/ws'') projectTypes = [1, 1, 0]" by code_simp
  have p: "map (matchedPatterns tie ''/ws'') projectTypes = [3, 4, 0]" by code_simp
  have v: "map (\<lambda>t. t\<lparr>confidence :=
                         percent (matchedFiles tie ''/ws'' t + matchedPatterns tie ''/ws'' t)
                           (length (files t) + length (patterns t)),
                       detected :=
                         30 < percent (matchedFiles tie ''/ws'' t + matchedPatterns tie ''/ws'' t)
                           (length (files t) + length (patterns t))\<rparr>)
             projectTypes
           = [(projectTypes ! 0)\<lparr>confidence := 100, detected := True\<rparr>,
              (projectTypes ! 1)\<lparr>confidence := 100, detected := True\<rparr>,
              (projectTypes ! 2)\<lparr>confidence := 0, detected := False\<rparr>]"
    by code_simp
  have e: "files noChecks = [] \<and> patterns noChecks = []" by (simp add: noChecks_def)
  from confidence_formula [OF h, of "''/ws''"]
  have a: "analyzeProject tie ''/ws''
           = [(projectTypes ! 0)\<lparr>confidence := 100, detected := True\<rparr>,
              (projectTypes ! 1)\<lparr>confidence := 100, detected := True\<rparr>,
              (projectTypes ! 2)\<lparr>confidence := 0, detected := False\<rparr>]"
    and z: "confidence (analyzeType tie ''/ws'' noChecks) = 0
              \<and> \<not> detected (analyzeType tie ''/ws'' noChecks)"
    unfolding v using e by blast+
  have n: "map name (analyzeProject tie ''/ws'') = [''Node.js'', ''React'', ''Python'']"
    unfolding a by (simp add: projectTypes_def)
  have c: "map confidence (analyzeProject tie ''/ws'') = [100, 100, 0]" unfolding a by simp
  have d: "map detected (analyzeProject tie ''/ws'') = [True, True, False]" unfolding a by simp
  show ?thesis using n f p c d e z by simp
qed

text \<open>
  Claim C8. Detection is strict at the threshold: a signature is detected exactly when
  its confidence is greater than 30. With three of ten marker files present the
  confidence is exactly 30 and the signature is not detected; with four of ten it is
  40 and the signature is detected.
\<close>

theorem detected_strict_threshold:
  "detected (analyzeType rt workspacePath t) = (30 < confidence (analyzeType rt workspacePath t))
   \<and> confidence (analyzeType threeOfTen ''/ws'' tenMarkers) = 30
   \<and> \<not> detected (analyzeType threeOfTen ''/ws'' tenMarkers)
   \<and> confidence (analyzeType fourOfTen ''/ws'' tenMarkers) = 40
   \<and> detected (analyzeType fourOfTen ''/ws'' tenMarkers)"
proof -
  have a: "confidence (analyzeType threeOfTen ''/ws'' tenMarkers) = 30" by code_simp
  have b: "\<not> detected (analyzeType threeOfTen ''/ws'' tenMarkers)" by code_simp
  have c: "confidence (analyzeType fourOfTen ''/ws'' tenMarkers) = 40" by code_simp
  have d: "detected (analyzeType fourOfTen ''/ws'' tenMarkers)" by code_simp
  show ?thesis using a b c d analyzeType_detected by simp
qed

subsection \<open>A directory that cannot be listed\<close>

lemma analyzeType_unlistable:
  assumes "readdirSync rt d = None" and "0 < length (files t) + length (patterns t)"
  shows "analyzeType rt d t =
     t\<lparr>confidence := percent (matchedFiles rt d t)
                           (length (files t) + length (patterns t)),
       detected := 30 < percent (matchedFiles rt d t)
                           (length (files t) + length (patterns t))\<rparr>"
proof -
  have c: "confidence (analyzeType rt d t) =
           percent (matchedFiles rt d t)
                           (length (files t) + length (patterns t))"
    using unlistable_confidence [OF assms(1), of t] assms(2) by (simp add: percent_def)
  have "analyzeType rt d t =
     t\<lparr>confidence := confidence (analyzeType rt d t), detected := detected (analyzeType rt d t)\<rparr>"
    by (rule analyzeType_record)
  then show ?thesis unfolding analyzeType_detected c .
qed

text \<open>
  Claim C7, as stated, fails: a directory that cannot be listed may still answer
  \<open>existsSync\<close> for the files in it (a directory with search permission and without
  read permission). In \<open>locked\<close> the listing throws and the four marker files exist:
  the confidences are 25, 20 and 60, and Python is detected.
\<close>

theorem unlistable_directory_counterexample:
  "readdirSync locked ''/locked'' = None
   \<and> map confidence (analyzeProject locked ''/locked'') = [25, 20, 60]
   \<and> map detected (analyzeProject locked ''/locked'') = [False, False, True]"
  by code_simp

text \<open>
  Claim C7, amended. When the listing throws, the analysis still returns every
  declared signature; no pattern counts, so each confidence is 100 times the number
  of its marker files that exist, divided by the number of its files and patterns.
  If moreover none of the marker files exists under the path, as for a directory that
  does not exist, every signature has the confidence 0 and is not detected.
\<close>

theorem unlistable_directory:
  assumes "readdirSync rt workspacePath = None"
  shows "analyzeProject rt workspacePath =
           map (\<lambda>t. t\<lparr>confidence :=
                         percent (matchedFiles rt workspacePath t)
                           (length (files t) + length (patterns t)),
                       detected :=
                         30 < percent (matchedFiles rt workspacePath t)
                           (length (files t) + length (patterns t))\<rparr>)
             projectTypes
     \<and> map name (analyzeProject rt workspacePath) = map name projectTypes
     \<and> ((\<forall>t \<in> set projectTypes. \<forall>f \<in> set (files t).
            \<not> existsSync rt (path_join rt workspacePath f)) \<longrightarrow>
         (\<forall>r \<in> set (analyzeProject rt workspacePath). confidence r = 0 \<and> \<not> detected r))"
proof -
  have a: "analyzeProject rt workspacePath =
           map (\<lambda>t. t\<lparr>confidence :=
                         percent (matchedFiles rt workspacePath t)
                           (length (files t) + length (patterns t)),
                       detected :=
                         30 < percent (matchedFiles rt workspacePath t)
                           (length (files t) + length (patterns t))\<rparr>)
             projectTypes"
    unfolding analyzeProject_def
  proof (rule map_cong [OF refl])
    fix t assume t: "t \<in> set projectTypes"
    show "analyzeType rt workspacePath t =
      t\<lparr>confidence :=
           percent (matchedFiles rt workspacePath t)
                           (length (files t) + length (patterns t)),
         detected :=
           30 < percent (matchedFiles rt workspacePath t)
                           (length (files t) + length (patterns t))\<rparr>"
      using assms declared_have_checks [OF t] by (rule analyzeType_unlistable)
  qed
  have n: "map name (analyzeProject rt workspacePath) = map name projectTypes"
    by (simp add: analyzeProject_def analyzeType_def Let_def)
  have z: "(\<forall>t \<in> set projectTypes. \<forall>f \<in> set (files t).
            \<not> existsSync rt (path_join rt workspacePath f)) \<longrightarrow>
         (\<forall>r \<in> set (analyzeProject rt workspacePath). confidence r = 0 \<and> \<not> detected r)"
  proof (intro impI ballI)
    fix r
    assume h: "\<forall>t \<in> set projectTypes. \<forall>f \<in> set (files t). \<not> existsSync rt (path_join rt workspacePath f)"
      and r: "r \<in> set (analyzeProject rt workspacePath)"
    from r obtain t where t: "t \<in> set projectTypes" and rt: "r = analyzeType rt workspacePath t"
      by (auto simp: analyzeProject_def)
    from h t have "matchedFiles rt workspacePath t = 0" by (simp add: matchedFiles_none)
    with unlistable_confidence [OF assms, of t] have "confidence r = 0" by (simp add: rt)
    then show "confidence r = 0 \<and> \<not> detected r" by (simp add: rt analyzeType_detected)
  qed
  show ?thesis using a n z by blast
qed

theorem unlistable_directory_witness:
  "readdirSync absent ''/nowhere'' = None
   \<and> map name (analyzeProject absent ''/nowhere'') = [''Node.js'', ''React'', ''Python'']
   \<and> map confidence (analyzeProject absent ''/nowhere'') = [0, 0, 0]
   \<and> map detected (analyzeProject absent ''/nowhere'') = [False, False, False]
   \<and> readdirSync locked ''/locked'' = None
   \<and> map (matchedFiles locked ''/locked'') projectTypes = [1, 1, 3]
   \<and> map confidence (analyzeProject locked ''/locked'') = [25, 20, 60]
   \<and> map detected (analyzeProject locked ''/locked'') = [False, False, True]"
proof -
  have h: "readdirSync absent ''/nowhere'' = None" by (simp add: absent_def posix_runtime_def)
  have e: "\<forall>t \<in> set projectTypes. \<forall>f \<in> set (files t). \<not> existsSync absent (path_join absent ''/nowhere'' f)"
    by (simp add: absent_def posix_runtime_def)
  have l: "length (analyzeProject absent ''/nowhere'') = 3" by (simp add: analyzeProject_def projectTypes_def)
  from unlistable_directory [OF h] e
  have n: "map name (analyzeProject absent ''/nowhere'') = map name projectTypes"
    and z: "\<forall>r \<in> set (analyzeProject absent ''/nowhere''). confidence r = 0 \<and> \<not> detected r"
    by blast+
  have n': "map name (analyzeProject absent ''/nowhere'') = [''Node.js'', ''React'', ''Python'']"
    using n by (simp add: projectTypes_def)
  have c: "map confidence (analyzeProject absent ''/nowhere'') = [0, 0, 0]"
    using l z by (intro map_const_3) auto
  have d: "map detected (analyzeProject absent ''/nowhere'') = [False, False, False]"
    using l z by (intro map_const_3) auto
  have h2: "readdirSync locked ''/locked'' = None" by (simp add: locked_def posix_runtime_def)
  have f2: "map (matchedFiles locked ''/locked'') projectTypes = [1, 1, 3]" by code_simp
  have v2: "map (\<lambda>t. t\<lparr>confidence :=
                         percent (matchedFiles locked ''/locked'' t)
                           (length (files t) + length (patterns t)),
                       detected :=
                         30 < percent (matchedFiles locked ''/locked'' t)
                           (length (files t) + length (patterns t))\<rparr>)
             projectTypes
           = [(projectTypes ! 0)\<lparr>confidence := 25, detected := False\<rparr>,
              (projectTypes ! 1)\<lparr>confidence := 20, detected := False\<rparr>,
              (projectTypes ! 2)\<lparr>confidence := 60, detected := True\<rparr>]"
    by code_simp
  from unlistable_directory [OF h2]
  have a2: "analyzeProject locked ''/locked''
           = [(projectTypes ! 0)\<lparr>confidence := 25, detected := False\<rparr>,
              (projectTypes ! 1)\<lparr>confidence := 20, detected := False\<rparr>,
              (projectTypes ! 2)\<lparr>confidence := 60, detected := True\<rparr>]"
    unfolding v2 by blast
  have c2: "map confidence (analyzeProject locked ''/locked'') = [25, 20, 60]" unfolding a2 by simp
  have d2: "map detected (analyzeProject locked ''/locked'') = [False, False, True]" unfolding a2 by simp
  show ?thesis using h n' c d h2 f2 c2 d2 by simp
qed

subsection \<open>The primary signature\<close>

lemma foldl_last_maximal:
  fixes conf :: "'a \<Rightarrow> rat"
  shows "\<exists>pre post.
           x # xs = pre @ foldl (\<lambda>prev current. if conf prev > conf current then prev else current) x xs # post
         \<and> (\<forall>y \<in> set pre. conf y \<le> conf (foldl (\<lambda>prev current. if conf prev > conf current then prev else current) x xs))
         \<and> (\<forall>y \<in> set post. conf y < conf (foldl (\<lambda>prev current. if conf prev > conf current then prev else current) x xs))"
proof (induction xs rule: rev_induct)
  case Nil
  have "[x] = [] @ x # []" by simp
  then show ?case by (intro exI [of _ "[]"]) simp
next
  case (snoc y ys)
  let ?f = "\<lambda>prev current. if conf prev > conf current then prev else current"
  let ?r = "foldl ?f x ys"
  from snoc obtain pre post where d: "x # ys = pre @ ?r # post"
    and le: "\<forall>z \<in> set pre. conf z \<le> conf ?r"
    and lt: "\<forall>z \<in> set post. conf z < conf ?r"
    by blast
  show ?case
  proof (cases "conf ?r > conf y")
    case True
    then have r: "foldl ?f x (ys @ [y]) = ?r" by simp
    have "x # ys @ [y] = pre @ ?r # (post @ [y])" using d by simp
    moreover have "\<forall>z \<in> set (post @ [y]). conf z < conf ?r" using lt True by simp
    ultimately show ?thesis unfolding r using le by blast
  next
    case False
    then have r: "foldl ?f x (ys @ [y]) = y" by simp
    have a: "x # ys @ [y] = (x # ys) @ y # []" by simp
    have "\<forall>z \<in> set (x # ys). conf z \<le> conf y"
    proof
      fix z assume "z \<in> set (x # ys)"
      then have "z \<in> set pre \<or> z = ?r \<or> z \<in> set post" unfolding d by auto
      then have "conf z \<le> conf ?r" using le lt by fastforce
      then show "conf z \<le> conf y" using False by simp
    qed
    then show ?thesis unfolding r using a by (metis empty_iff list.set(1))
  qed
qed

text \<open>
  Claim C2, as stated, fails on ties. In \<open>tie\<close> the signatures Node.js and React are
  both detected with confidence 100, and the selection returns React, the later one.
\<close>

theorem primaryType_counterexample:
  "map name (filter detected (analyzeProject tie ''/ws'')) = [''Node.js'', ''React'']
   \<and> map confidence (filter detected (analyzeProject tie ''/ws'')) = [100, 100]
   \<and> map_option name (primaryType (analyzeProject tie ''/ws'')) = Some ''React''"
  by code_simp

text \<open>
  Claim C2, amended. When at least one signature is detected, the selection returns a
  detected signature of highest confidence, and among several of that confidence the
  last one in declaration order: every detected signature before it has at most its
  confidence, every one after it has strictly less.
\<close>

theorem primaryType_last_maximal:
  assumes "filter detected analysis \<noteq> []"
  shows "\<exists>p pre post.
           primaryType analysis = Some p
         \<and> filter detected analysis = pre @ p # post
         \<and> (\<forall>y \<in> set pre. confidence y \<le> confidence p)
         \<and> (\<forall>y \<in> set post. confidence y < confidence p)"
proof -
  from assms obtain x xs where ds: "filter detected analysis = x # xs"
    by (cases "filter detected analysis") auto
  have p: "primaryType analysis =
             Some (foldl (\<lambda>prev current. if confidence prev > confidence current then prev else current) x xs)"
    by (simp add: primaryType_def reduce_def ds)
  show ?thesis unfolding p ds using foldl_last_maximal [of x xs confidence] by blast
qed

theorem primaryType_last_maximal_witness:
  "filter detected (analyzeProject tie ''/ws'') \<noteq> []
   \<and> map_option name (primaryType (analyzeProject tie ''/ws'')) = Some ''React''
   \<and> map name (filter detected (analyzeProject tie ''/ws'')) = [''Node.js'', ''React'']"
proof -
  have ne: "filter detected (analyzeProject tie ''/ws'') \<noteq> []" by code_simp
  have nm: "map name (filter detected (analyzeProject tie ''/ws'')) = [''Node.js'', ''React'']" by code_simp
  have cf: "map confidence (filter detected (analyzeProject tie ''/ws'')) = [100, 100]" by code_simp
  from primaryType_last_maximal [OF ne] obtain p pre post where
    p: "primaryType (analyzeProject tie ''/ws'') = Some p"
    and d: "filter detected (analyzeProject tie ''/ws'') = pre @ p # post"
    and lt: "\<forall>y \<in> set post. confidence y < confidence p"
    by blast
  have "post = []"
  proof (rule ccontr)
    assume "post \<noteq> []"
    then obtain q qs where q: "post = q # qs" by (cases post) auto
    from cf d q have "confidence p = 100 \<and> confidence q = 100"
      by (cases pre) (auto simp: Cons_eq_append_conv)
    then show False using lt q by simp
  qed
  then have "map name (pre @ [p]) = [''Node.js'', ''React'']" using nm d by simp
  then have "name p = ''React''" by (cases pre rule: rev_cases) (auto simp: Cons_eq_append_conv)
  then show ?thesis using ne nm p by simp
qed

section \<open>Properties of the regular expressions\<close>

text \<open>
  The lemmas below compute the first element of \<open>ms\<close>, the match that is reported,
  for the patterns of the resolver on lines of a given shape.
\<close>

lemma drop_in_takeWhile:
  "k < length (takeWhile P s) \<Longrightarrow> \<exists>y ys. drop k s = y # ys \<and> P y"
proof -
  assume k: "k < length (takeWhile P s)"
  have l: "length (takeWhile P s) \<le> length s" by (rule length_takeWhile_le)
  have "takeWhile P s ! k \<in> set (takeWhile P s)" using k by simp
  then have "P (takeWhile P s ! k)" by (meson set_takeWhileD)
  moreover have "takeWhile P s ! k = s ! k" using k by (rule takeWhile_nth)
  ultimately have "P (s ! k)" by simp
  moreover have "drop k s = s ! k # drop (Suc k) s" using k l by (simp add: Cons_nth_drop_Suc)
  ultimately show ?thesis by blast
qed

lemma take_length_drop: "take (length s - length (drop k s)) s = take k s"
  by (cases "k \<le> length s") simp_all

lemma ms_Star_Seq:
  "ms m (Seq (Star c) b) s caps =
     ms m b (dropWhile (in_class c) s) caps
     @ concat (map (\<lambda>k. ms m b (drop k s) caps) (rev [0 ..< length (takeWhile (in_class c) s)]))"
  by (simp add: comp_def dropWhile_eq_drop)

lemma ms_Plus_Seq:
  "takeWhile (in_class c) s \<noteq> [] \<Longrightarrow>
   ms m (Seq (Group g (Plus c)) b) s caps =
     ms m b (dropWhile (in_class c) s) ((g, takeWhile (in_class c) s) # caps)
     @ concat (map (\<lambda>k. ms m b (drop k s) ((g, take k s) # caps))
                (rev [1 ..< length (takeWhile (in_class c) s)]))"
proof -
  assume ne: "takeWhile (in_class c) s \<noteq> []"
  let ?n = "length (takeWhile (in_class c) s)"
  have n: "1 \<le> ?n" using ne by (simp add: Suc_leI)
  have l: "?n \<le> length s" by (rule length_takeWhile_le)
  have u: "[1 ..< Suc ?n] = [1 ..< ?n] @ [?n]" using n by simp
  have t: "take ?n s = takeWhile (in_class c) s" by (rule takeWhile_eq_take [symmetric])
  have "ms m (Seq (Group g (Plus c)) b) s caps =
        concat (map (\<lambda>k. ms m b (drop k s) ((g, take k s) # caps)) (rev [1 ..< Suc ?n]))"
    by (simp add: comp_def take_length_drop del: upt_Suc length_drop)
  then show ?thesis unfolding u by (simp add: dropWhile_eq_drop t)
qed


lemma in_class_CNotChar: "in_class (CNotChar q) = (\<lambda>x. x \<noteq> q)"
  by (rule ext) simp

lemma Atom_after_class:
  assumes "k < length (takeWhile (in_class c) s)" and "\<not> in_class c x"
  shows "ms m (Atom (CChar x)) (drop k s) caps = []"
proof -
  from drop_in_takeWhile [OF assms(1)] obtain y ys where "drop k s = y # ys" "in_class c y"
    by blast
  then show ?thesis using assms(2) by auto
qed

lemma Atom_dropWhile:
  assumes "\<not> in_class c x"
  shows "ms m (Atom (CChar x)) (dropWhile (in_class c) s) caps =
          (if length (takeWhile (in_class c) s) < length s \<and> s ! length (takeWhile (in_class c) s) = x
           then [(drop (Suc (length (takeWhile (in_class c) s))) s, caps)] else [])"
proof (cases "length (takeWhile (in_class c) s) < length s")
  case True
  then have d: "dropWhile (in_class c) s = s ! length (takeWhile (in_class c) s) # drop (Suc (length (takeWhile (in_class c) s))) s"
    by (simp add: dropWhile_eq_drop Cons_nth_drop_Suc)
  show ?thesis unfolding d using True by simp
next
  case False
  then have "length (takeWhile (in_class c) s) = length s"
    using length_takeWhile_le [of "in_class c" s] by simp
  then have e: "dropWhile (in_class c) s = []" by (simp add: dropWhile_eq_drop)
  show ?thesis unfolding e using False by simp
qed

lemma keyOnly_ms:
  "ms False keyOnlyPattern (c # cs) [] =
     (if c = dquote \<and> takeWhile (\<lambda>x. x \<noteq> dquote) cs \<noteq> []
         \<and> length (takeWhile (\<lambda>x. x \<noteq> dquote) cs) < length cs
      then [(drop (Suc (length (takeWhile (\<lambda>x. x \<noteq> dquote) cs))) cs,
             [(1, takeWhile (\<lambda>x. x \<noteq> dquote) cs)])]
      else [])"
proof (cases "c = dquote")
  case False
  then show ?thesis by (simp add: keyOnlyPattern_def)
next
  case True
  let ?tw = "takeWhile (in_class (CNotChar dquote)) cs"
  have a: "ms False keyOnlyPattern (c # cs) [] =
           ms False (Seq (Group 1 (Plus (CNotChar dquote))) (Atom (CChar dquote))) cs []"
    using True by (simp add: keyOnlyPattern_def)
  show ?thesis
  proof (cases "?tw = []")
    case True
    then have "ms False (Seq (Group 1 (Plus (CNotChar dquote))) (Atom (CChar dquote))) cs [] = []"
      by simp
    then show ?thesis using a True by (simp add: in_class_CNotChar)
  next
    case False
    have nq: "\<not> in_class (CNotChar dquote) dquote" by simp
    have rest: "concat (map (\<lambda>k. ms False (Atom (CChar dquote)) (drop k cs) ((1, take k cs) # []))
                  (rev [1 ..< length ?tw])) = []"
      using Atom_after_class [OF _ nq] by simp
    have nth: "length ?tw < length cs \<Longrightarrow> cs ! length ?tw = dquote"
      using nth_length_takeWhile [of "in_class (CNotChar dquote)" cs] by simp
    have "ms False (Seq (Group 1 (Plus (CNotChar dquote))) (Atom (CChar dquote))) cs [] =
          (if length ?tw < length cs then [(drop (Suc (length ?tw)) cs, [(1, ?tw)])] else [])"
      unfolding ms_Plus_Seq [OF False] rest Atom_dropWhile [OF nq] using nth by simp
    then show ?thesis using a False \<open>c = dquote\<close> by (simp add: in_class_CNotChar)
  qed
qed

lemma keyOnly_search:
  "map_option (\<lambda>(pre, rest, caps). caps) (search False keyOnlyPattern acc s) =
     map_option (\<lambda>k. [(1, k)]) (firstQuotedToken s)"
proof (induction s arbitrary: acc)
  case Nil
  show ?case by (simp add: keyOnlyPattern_def)
next
  case (Cons c cs)
  show ?case unfolding search.simps keyOnly_ms using Cons by simp
qed

lemma keyOnly_match:
  "regex_match keyOnlyPattern line = map_option (\<lambda>k. [(1, k)]) (firstQuotedToken line)"
  unfolding regex_match_def by (rule keyOnly_search)


lemma in_class_CSpace: "in_class CSpace = isWhiteSpace"
  by (rule ext) simp

lemma Dollar_nonempty: "s \<noteq> [] \<Longrightarrow> ms False Dollar s caps = []"
  by (cases s) simp_all

lemma Star_Dollar:
  "ms False (Seq (Star c) Dollar) s caps = (if list_all (in_class c) s then [([], caps)] else [])"
proof -
  let ?n = "length (takeWhile (in_class c) s)"
  have r: "concat (map (\<lambda>k. ms False Dollar (drop k s) caps) (rev [0 ..< ?n])) = []"
  proof -
    have "ms False Dollar (drop k s) caps = []" if "k < ?n" for k
    proof -
      from drop_in_takeWhile [OF that] have "drop k s \<noteq> []" by auto
      then show ?thesis by (rule Dollar_nonempty)
    qed
    then show ?thesis by simp
  qed
  have h: "ms False Dollar (dropWhile (in_class c) s) caps =
           (if list_all (in_class c) s then [([], caps)] else [])"
  proof (cases "list_all (in_class c) s")
    case True
    then have e: "dropWhile (in_class c) s = []" by (simp add: list_all_iff)
    show ?thesis unfolding e using True by simp
  next
    case False
    then have "dropWhile (in_class c) s \<noteq> []" by (simp add: list_all_iff)
    then have "ms False Dollar (dropWhile (in_class c) s) caps = []" by (rule Dollar_nonempty)
    then show ?thesis using False by simp
  qed
  show ?thesis unfolding ms_Star_Seq r h by simp
qed

lemma valueTail_ms:
  "ms False valueTail t caps = (if commaTail t then [([], caps)] else [])"
proof (cases t)
  case Nil
  then show ?thesis by (simp add: valueTail_def commaTail_def)
next
  case (Cons c ws)
  have "ms False valueTail (c # ws) caps =
        (if c = CHR '','' then ms False (Seq (Star CSpace) Dollar) ws caps else [])"
    by (simp add: valueTail_def)
  then show ?thesis unfolding Star_Dollar Cons by (simp add: commaTail_def in_class_CSpace)
qed

lemma ms_LazyPlus_Seq:
  "ms m (Seq (Group g (LazyPlus c)) b) s caps =
     concat (map (\<lambda>k. ms m b (drop k s) ((g, take k s) # caps))
              [1 ..< Suc (length (takeWhile (in_class c) s))])"
  by (simp add: comp_def take_length_drop del: upt_Suc length_drop)

lemma value_ms:
  assumes "v \<noteq> []" and "\<forall>c \<in> set v. \<not> isLineTerminator c" and "commaTail t"
    and "\<forall>j. 0 < j \<and> j < length v \<longrightarrow> \<not> commaTail (drop j v @ t)"
  shows "\<exists>tl. ms False (Seq (Group 2 (LazyPlus CDot)) valueTail) (v @ t) caps
               = ([], (2, v) # caps) # tl"
proof -
  let ?s = "v @ t"
  let ?n = "length (takeWhile (in_class CDot) ?s)"
  let ?f = "\<lambda>k. ms False valueTail (drop k ?s) ((2, take k ?s) # caps)"
  have tw: "takeWhile (in_class CDot) ?s = v @ takeWhile (in_class CDot) t"
    using assms(2) by (simp add: takeWhile_append2)
  have vn: "length v \<le> ?n" unfolding tw by simp
  have v1: "1 \<le> length v" using assms(1) by (simp add: Suc_leI)
  have e: "ms False (Seq (Group 2 (LazyPlus CDot)) valueTail) ?s caps
           = concat (map ?f [1 ..< Suc ?n])"
    by (rule ms_LazyPlus_Seq)
  have sp: "[1 ..< Suc ?n] = [1 ..< length v] @ length v # [Suc (length v) ..< Suc ?n]"
  proof -
    have "[1 ..< Suc ?n] = [1 ..< length v] @ [length v ..< Suc ?n]"
    proof -
      have "Suc ?n = length v + (Suc ?n - length v)" using vn by simp
      then show ?thesis using upt_add_eq_append [OF v1, of "Suc ?n - length v"] by simp
    qed
    also have "[length v ..< Suc ?n] = length v # [Suc (length v) ..< Suc ?n]"
      using vn by (simp add: upt_conv_Cons del: upt_Suc)
    finally show ?thesis .
  qed
  have before: "concat (map ?f [1 ..< length v]) = []"
  proof -
    have "?f k = []" if "k \<in> set [1 ..< length v]" for k
    proof -
      from that have k: "0 < k \<and> k < length v" by simp
      then have "drop k ?s = drop k v @ t" by simp
      moreover have "\<not> commaTail (drop k v @ t)" using assms(4) k by blast
      ultimately show ?thesis by (simp add: valueTail_ms)
    qed
    then show ?thesis by simp
  qed
  have at: "?f (length v) = [([], (2, v) # caps)]"
    using assms(3) by (simp add: valueTail_ms)
  have "concat (map ?f ([1 ..< length v] @ length v # [Suc (length v) ..< Suc ?n]))
        = concat (map ?f [1 ..< length v]) @ ?f (length v)
          @ concat (map ?f [Suc (length v) ..< Suc ?n])"
    by (simp only: map_append concat_append list.map concat.simps)
  also have "\<dots> = ([], (2, v) # caps) # concat (map ?f [Suc (length v) ..< Suc ?n])"
    unfolding before at by (simp only: append_Nil append_Cons)
  finally show ?thesis unfolding e sp by (rule exI)
qed


lemma first_append: "\<exists>tl. xs = r # tl \<Longrightarrow> \<exists>tl. xs @ ys = r # tl"
  by auto

lemma dropWhile_stop:
  "\<forall>x \<in> set xs. P x \<Longrightarrow> \<not> P y \<Longrightarrow> dropWhile P (xs @ y # ys) = y # ys"
  by (simp add: dropWhile_append2)

lemma takeWhile_stop:
  "\<forall>x \<in> set xs. P x \<Longrightarrow> \<not> P y \<Longrightarrow> takeWhile P (xs @ y # ys) = xs"
  by (simp add: takeWhile_append2)

lemma Star_first:
  assumes "\<forall>x \<in> set ws. in_class c x" and "\<not> in_class c y"
    and "\<exists>tl. ms m b (y # ys) caps = r # tl"
  shows "\<exists>tl. ms m (Seq (Star c) b) (ws @ y # ys) caps = r # tl"
  unfolding ms_Star_Seq dropWhile_stop [OF assms(1,2)] using assms(3) by (rule first_append)

lemma colon_not_space: "\<not> in_class CSpace CHR '':''"
  by (simp add: isWhiteSpace_def isLineTerminator_def)

lemma kv_ms:
  assumes k: "k \<noteq> []" "dquote \<notin> set k"
    and ws: "list_all isWhiteSpace ws1" "list_all isWhiteSpace ws2"
    and v: "v \<noteq> []" "\<not> isWhiteSpace (hd v)" "\<forall>c \<in> set v. \<not> isLineTerminator c"
    and t: "commaTail t" "\<forall>j. 0 < j \<and> j < length v \<longrightarrow> \<not> commaTail (drop j v @ t)"
  shows "\<exists>tl. ms False keyValuePattern
                 (dquote # k @ dquote # ws1 @ CHR '':'' # ws2 @ v @ t) []
               = ([], [(2, v), (1, k)]) # tl"
proof -
  let ?R = "([], [(2, v), (1, k)])"
  let ?B5 = "Seq (Group 2 (LazyPlus CDot)) valueTail"
  let ?B4 = "Seq (Star CSpace) ?B5"
  let ?B3 = "Seq (Atom (CChar CHR '':'')) ?B4"
  let ?B2 = "Seq (Star CSpace) ?B3"
  let ?B1 = "Seq (Atom (CChar dquote)) ?B2"
  let ?c1 = "[(1::nat, k)]"
  from v(1) obtain y v' where vy: "v = y # v'" by (cases v) auto
  have y: "\<not> in_class CSpace y" using v(2) vy by simp
  have w1: "\<forall>x \<in> set ws1. in_class CSpace x" using ws(1) by (simp add: list_all_iff)
  have w2: "\<forall>x \<in> set ws2. in_class CSpace x" using ws(2) by (simp add: list_all_iff)
  have 5: "\<exists>tl. ms False ?B5 (v @ t) ?c1 = ?R # tl"
    using value_ms [OF v(1) v(3) t] by blast
  then have "\<exists>tl. ms False ?B5 (y # v' @ t) ?c1 = ?R # tl" by (simp add: vy)
  then have "\<exists>tl. ms False ?B4 (ws2 @ y # v' @ t) ?c1 = ?R # tl"
    by (rule Star_first [OF w2 y])
  then have 4: "\<exists>tl. ms False ?B4 (ws2 @ v @ t) ?c1 = ?R # tl" by (simp add: vy)
  have "ms False ?B3 (CHR '':'' # ws2 @ v @ t) ?c1 = ms False ?B4 (ws2 @ v @ t) ?c1" by simp
  with 4 have 3: "\<exists>tl. ms False ?B3 (CHR '':'' # ws2 @ v @ t) ?c1 = ?R # tl" by simp
  have 2: "\<exists>tl. ms False ?B2 (ws1 @ CHR '':'' # ws2 @ v @ t) ?c1 = ?R # tl"
    using 3 by (rule Star_first [OF w1 colon_not_space])
  have "ms False ?B1 (dquote # ws1 @ CHR '':'' # ws2 @ v @ t) ?c1
        = ms False ?B2 (ws1 @ CHR '':'' # ws2 @ v @ t) ?c1" by simp
  with 2 have 1: "\<exists>tl. ms False ?B1 (dquote # ws1 @ CHR '':'' # ws2 @ v @ t) ?c1 = ?R # tl"
    by simp
  let ?s = "k @ dquote # ws1 @ CHR '':'' # ws2 @ v @ t"
  have kq: "\<forall>x \<in> set k. in_class (CNotChar dquote) x" using k(2) by auto
  have nq: "\<not> in_class (CNotChar dquote) dquote" by simp
  have tw: "takeWhile (in_class (CNotChar dquote)) ?s = k" using kq nq by (rule takeWhile_stop)
  have dw: "dropWhile (in_class (CNotChar dquote)) ?s = dquote # ws1 @ CHR '':'' # ws2 @ v @ t"
    using kq nq by (rule dropWhile_stop)
  have ne: "takeWhile (in_class (CNotChar dquote)) ?s \<noteq> []" unfolding tw using k(1) .
  have 0: "\<exists>tl. ms False (Seq (Group 1 (Plus (CNotChar dquote))) ?B1) ?s [] = ?R # tl"
    unfolding ms_Plus_Seq [OF ne] unfolding tw dw using 1 by (rule first_append)
  have "ms False keyValuePattern (dquote # ?s) []
        = ms False (Seq (Group 1 (Plus (CNotChar dquote))) ?B1) ?s []"
    unfolding keyValuePattern_def by simp
  with 0 show ?thesis by simp
qed

lemma search_skip:
  "q \<notin> set pre \<Longrightarrow>
   search m (Seq (Atom (CChar q)) b) acc (pre @ q # s)
     = search m (Seq (Atom (CChar q)) b) (acc @ pre) (q # s)"
proof (induction pre arbitrary: acc)
  case Nil
  show ?case by simp
next
  case (Cons c pre)
  then have c: "c \<noteq> q" and p: "q \<notin> set pre" by auto
  have "ms m (Seq (Atom (CChar q)) b) (c # pre @ q # s) [] = []" using c by simp
  then have "search m (Seq (Atom (CChar q)) b) acc ((c # pre) @ q # s)
             = search m (Seq (Atom (CChar q)) b) (acc @ [c]) (pre @ q # s)" by simp
  also have "\<dots> = search m (Seq (Atom (CChar q)) b) ((acc @ [c]) @ pre) (q # s)"
    using p by (rule Cons.IH)
  finally show ?case by simp
qed

lemma kv_match:
  assumes p: "dquote \<notin> set pre"
    and k: "k \<noteq> []" "dquote \<notin> set k"
    and ws: "list_all isWhiteSpace ws1" "list_all isWhiteSpace ws2"
    and v: "v \<noteq> []" "\<not> isWhiteSpace (hd v)" "\<forall>c \<in> set v. \<not> isLineTerminator c"
    and t: "commaTail t" "\<forall>j. 0 < j \<and> j < length v \<longrightarrow> \<not> commaTail (drop j v @ t)"
  shows "regex_match keyValuePattern
           (pre @ dquote # k @ dquote # ws1 @ CHR '':'' # ws2 @ v @ t) = Some [(2, v), (1, k)]"
proof -
  let ?s = "k @ dquote # ws1 @ CHR '':'' # ws2 @ v @ t"
  from kv_ms [OF k ws v t] obtain tl where
    m: "ms False keyValuePattern (dquote # ?s) [] = ([], [(2, v), (1, k)]) # tl" by blast
  have "search False keyValuePattern [] (pre @ dquote # ?s)
        = search False keyValuePattern ([] @ pre) (dquote # ?s)"
    unfolding keyValuePattern_def using p by (rule search_skip)
  also have "\<dots> = Some (pre, [], [(2, v), (1, k)])" using m by simp
  finally show ?thesis by (simp add: regex_match_def)
qed

lemma trailingComma_search:
  "search False trailingComma acc w =
     (if w \<noteq> [] \<and> last w = CHR '','' then Some (acc @ butlast w, [], []) else None)"
proof (induction w arbitrary: acc)
  case Nil
  show ?case by (simp add: trailingComma_def)
next
  case (Cons c cs)
  have m: "ms False trailingComma (c # cs) [] = (if c = CHR '','' \<and> cs = [] then [([], [])] else [])"
    by (cases cs) (simp_all add: trailingComma_def)
  show ?case
  proof (cases "c = CHR '','' \<and> cs = []")
    case True
    then show ?thesis using m by simp
  next
    case False
    have "search False trailingComma acc (c # cs) = search False trailingComma (acc @ [c]) cs"
      using m False by simp
    also have "\<dots> = (if cs \<noteq> [] \<and> last cs = CHR '','' then Some ((acc @ [c]) @ butlast cs, [], []) else None)"
      by (rule Cons)
    finally show ?thesis using False by auto
  qed
qed

lemma trailingComma_replace: "regex_replace trailingComma [] w = dropTrailingComma w"
  by (simp add: regex_replace_def trailingComma_search dropTrailingComma_def)

section \<open>Properties of the resolver\<close>

lemma firstQuotedToken_nonempty: "firstQuotedToken line = Some k \<Longrightarrow> k \<noteq> []"
  by (induction line) (auto split: if_splits)

lemma lineLocal_kv:
  "regex_match keyValuePattern line = Some [(2, v), (1, k)] \<Longrightarrow>
   lineLocal line = Some (Some k, Some (dropTrailingComma (trim v)))"
  by (simp add: lineLocal_def trailingComma_replace)

lemma lineLocal_key:
  "regex_match keyValuePattern line = None \<Longrightarrow> firstQuotedToken line = Some k \<Longrightarrow>
   lineLocal line = Some (Some k, Some ''unknown'')"
  by (simp add: lineLocal_def keyOnly_match)

lemma enriching_line_local:
  "lineAt text n = Some line \<Longrightarrow> lineLocal line = Some (Some k, v) \<Longrightarrow> k \<noteq> [] \<Longrightarrow>
   getPropertyAtPosition_enriching JSON_parse text n = Some \<lparr>key = k, value' = orUnknown v\<rparr>"
  by (simp add: getPropertyAtPosition_enriching_def Let_def truthyText_def)

text \<open>
  Claim C3, as stated, fails for the resolver of src/extension.ts: on the line that
  holds only the quoted token \<open>program\<close> its value is the text \<open>undefined\<close>, not
  \<open>unknown\<close>.
\<close>

theorem quoted_token_counterexample:
  "getPropertyAtPosition programText 0 = Some \<lparr>key = ''program'', value' = ''undefined''\<rparr>"
  by code_simp

text \<open>
  Claim C3, amended. For every line that does not match the key-value pattern and
  holds a quoted token, both resolvers return the first quoted token as the key; the
  resolver with structural enrichment returns the value \<open>unknown\<close> with it, the resolver
  of src/extension.ts the value \<open>undefined\<close>.
\<close>

theorem quoted_token_without_value:
  assumes "lineAt text n = Some line"
    and "regex_match keyValuePattern line = None"
    and "firstQuotedToken line = Some k"
  shows "getPropertyAtPosition_enriching JSON_parse text n = Some \<lparr>key = k, value' = ''unknown''\<rparr>
       \<and> getPropertyAtPosition text n = Some \<lparr>key = k, value' = ''undefined''\<rparr>"
proof -
  have k: "k \<noteq> []" using assms(3) by (rule firstQuotedToken_nonempty)
  have ll: "lineLocal line = Some (Some k, Some ''unknown'')"
    using assms(2,3) by (rule lineLocal_key)
  have a: "getPropertyAtPosition_enriching JSON_parse text n = Some \<lparr>key = k, value' = orUnknown (Some ''unknown'')\<rparr>"
    using assms(1) ll k by (rule enriching_line_local)
  have b: "getPropertyAtPosition text n = Some \<lparr>key = k, value' = ''undefined''\<rparr>"
    using assms by (simp add: getPropertyAtPosition_def keyOnly_match)
  show ?thesis using a b by (simp add: orUnknown_def)
qed

theorem quoted_token_without_value_witness:
  "lineAt programText 0 = Some programText
   \<and> regex_match keyValuePattern programText = None
   \<and> firstQuotedToken programText = Some ''program''
   \<and> getPropertyAtPosition_enriching exampleParse programText 0
       = Some \<lparr>key = ''program'', value' = ''unknown''\<rparr>
   \<and> getPropertyAtPosition programText 0 = Some \<lparr>key = ''program'', value' = ''undefined''\<rparr>"
proof -
  have l: "lineAt programText 0 = Some programText" by code_simp
  have m: "regex_match keyValuePattern programText = None" by code_simp
  have f: "firstQuotedToken programText = Some ''program''" by code_simp
  show ?thesis using quoted_token_without_value [OF l m f, of exampleParse] l m f by simp
qed

lemma in_ms_Seq:
  "x \<in> set (ms m (Seq a b) s caps) \<longleftrightarrow>
     (\<exists>s1 c1. (s1, c1) \<in> set (ms m a s caps) \<and> x \<in> set (ms m b s1 c1))"
  by auto

lemma in_ms_Atom: "(s', c') \<in> set (ms m (Atom c) s caps) \<Longrightarrow> c' = caps"
  by (auto split: list.splits if_splits)

lemma in_ms_Star: "(s', c') \<in> set (ms m (Star c) s caps) \<Longrightarrow> c' = caps"
  by (auto simp del: upt_Suc)

lemma in_ms_Group_Plus:
  "(s', c') \<in> set (ms m (Group g (Plus c)) s caps) \<Longrightarrow> \<exists>t. t \<noteq> [] \<and> c' = (g, t) # caps"
proof -
  assume "(s', c') \<in> set (ms m (Group g (Plus c)) s caps)"
  then obtain k where k: "1 \<le> k" "k \<le> length (takeWhile (in_class c) s)"
    and c': "c' = (g, take (length s - length (drop k s)) s) # caps"
    by (auto simp del: upt_Suc length_drop)
  have "k \<le> length s" using k(2) length_takeWhile_le [of "in_class c" s] by simp
  then have "take (length s - length (drop k s)) s \<noteq> []" using k(1) by auto
  then show ?thesis using c' by blast
qed

lemma in_ms_Group_LazyPlus:
  "(s', c') \<in> set (ms m (Group g (LazyPlus c)) s caps) \<Longrightarrow> \<exists>t. t \<noteq> [] \<and> c' = (g, t) # caps"
proof -
  assume "(s', c') \<in> set (ms m (Group g (LazyPlus c)) s caps)"
  then obtain k where k: "1 \<le> k" "k \<le> length (takeWhile (in_class c) s)"
    and c': "c' = (g, take (length s - length (drop k s)) s) # caps"
    by (auto simp del: upt_Suc length_drop)
  have "k \<le> length s" using k(2) length_takeWhile_le [of "in_class c" s] by simp
  then have "take (length s - length (drop k s)) s \<noteq> []" using k(1) by auto
  then show ?thesis using c' by blast
qed

lemma in_ms_valueTail: "(s', c') \<in> set (ms False valueTail s caps) \<Longrightarrow> c' = caps"
  unfolding valueTail_ms by (auto split: if_splits)

lemma kv_captures:
  assumes "(rest, caps) \<in> set (ms False keyValuePattern s [])"
  shows "\<exists>k v. k \<noteq> [] \<and> v \<noteq> [] \<and> caps = [(2, v), (1, k)]"
proof -
  from assms obtain s1 c1 s2 c2 s3 c3 s4 c4 s5 c5 s6 c6 s7 c7 where
    1: "(s1, c1) \<in> set (ms False (Atom (CChar dquote)) s [])"
    and 2: "(s2, c2) \<in> set (ms False (Group 1 (Plus (CNotChar dquote))) s1 c1)"
    and 3: "(s3, c3) \<in> set (ms False (Atom (CChar dquote)) s2 c2)"
    and 4: "(s4, c4) \<in> set (ms False (Star CSpace) s3 c3)"
    and 5: "(s5, c5) \<in> set (ms False (Atom (CChar CHR '':'')) s4 c4)"
    and 6: "(s6, c6) \<in> set (ms False (Star CSpace) s5 c5)"
    and 7: "(s7, c7) \<in> set (ms False (Group 2 (LazyPlus CDot)) s6 c6)"
    and 8: "(rest, caps) \<in> set (ms False valueTail s7 c7)"
    unfolding keyValuePattern_def in_ms_Seq by blast
  have "c1 = []" using 1 by (rule in_ms_Atom)
  moreover obtain k where "k \<noteq> []" "c2 = (1, k) # c1" using in_ms_Group_Plus [OF 2] by blast
  moreover have "c3 = c2" using 3 by (rule in_ms_Atom)
  moreover have "c4 = c3" using 4 by (rule in_ms_Star)
  moreover have "c5 = c4" using 5 by (rule in_ms_Atom)
  moreover have "c6 = c5" using 6 by (rule in_ms_Star)
  moreover obtain v where "v \<noteq> []" "c7 = (2, v) # c6" using in_ms_Group_LazyPlus [OF 7] by blast
  moreover have "caps = c7" using 8 by (rule in_ms_valueTail)
  ultimately show ?thesis by blast
qed

lemma search_result:
  "search m r acc s = Some (pre, rest, caps) \<Longrightarrow> \<exists>b. (rest, caps) \<in> set (ms m r b [])"
proof (induction s arbitrary: acc)
  case Nil
  then obtain tl where "ms m r [] [] = (rest, caps) # tl" by (auto split: list.splits)
  then have "(rest, caps) \<in> set (ms m r [] [])" by simp
  then show ?case by blast
next
  case (Cons c cs)
  show ?case
  proof (cases "ms m r (c # cs) []")
    case Nil
    then have "search m r (acc @ [c]) cs = Some (pre, rest, caps)" using Cons.prems by simp
    then show ?thesis by (rule Cons.IH)
  next
    case (Cons x xs)
    then have "x = (rest, caps)" using Cons.prems by (cases x) simp
    then have "(rest, caps) \<in> set (ms m r (c # cs) [])" using Cons by simp
    then show ?thesis by blast
  qed
qed

lemma kv_match_captures:
  assumes "regex_match keyValuePattern line = Some caps"
  shows "\<exists>k v. k \<noteq> [] \<and> v \<noteq> [] \<and> caps = [(2, v), (1, k)]"
proof -
  from assms obtain pre rest where "search False keyValuePattern [] line = Some (pre, rest, caps)"
    unfolding regex_match_def by auto
  then obtain b where "(rest, caps) \<in> set (ms False keyValuePattern b [])"
    using search_result by blast
  then show ?thesis by (rule kv_captures)
qed

text \<open>
  Claim C4, as stated, fails where nothing remains of the value fragment. The line
  under edit in \<open>commaText\<close> matches the key-value pattern with the fragment \<open>,\<close>; trimmed
  and with the trailing comma stripped that is the empty text, but the resolver with
  structural enrichment returns \<open>unknown\<close> and the resolver of src/extension.ts returns
  the comma.
\<close>

theorem key_value_line_counterexample:
  "regex_match keyValuePattern commaText = Some [(2, '',''), (1, ''a'')]
   \<and> getPropertyAtPosition_enriching exampleParse commaText 0
       = Some \<lparr>key = ''a'', value' = ''unknown''\<rparr>
   \<and> getPropertyAtPosition commaText 0 = Some \<lparr>key = ''a'', value' = '',''\<rparr>"
  by code_simp

text \<open>
  Claim C4, amended. For every line that matches the key-value pattern, with the key
  \<open>k\<close> in its first group and the value fragment \<open>v\<close> in its second, and whatever the
  rest of the document is (and whatever \<open>JSON.parse\<close> does): the resolver with
  structural enrichment returns the key with the trimmed fragment less one trailing
  comma, or with \<open>unknown\<close> when that is empty; the resolver of src/extension.ts returns
  the key with the trimmed fragment.
\<close>

theorem key_value_line:
  assumes "lineAt text n = Some line"
    and "regex_match keyValuePattern line = Some caps"
  shows "\<exists>k v. caps = [(2, v), (1, k)]
       \<and> getPropertyAtPosition_enriching JSON_parse text n =
           Some \<lparr>key = k,
                 value' = (if dropTrailingComma (trim v) = [] then ''unknown''
                           else dropTrailingComma (trim v))\<rparr>
       \<and> getPropertyAtPosition text n = Some \<lparr>key = k, value' = trim v\<rparr>"
proof -
  from kv_match_captures [OF assms(2)] obtain k v where
    k: "k \<noteq> []" and c: "caps = [(2, v), (1, k)]" by blast
  have m: "regex_match keyValuePattern line = Some [(2, v), (1, k)]" using assms(2) c by simp
  have ll: "lineLocal line = Some (Some k, Some (dropTrailingComma (trim v)))"
    using m by (rule lineLocal_kv)
  have a: "getPropertyAtPosition_enriching JSON_parse text n =
           Some \<lparr>key = k, value' = orUnknown (Some (dropTrailingComma (trim v)))\<rparr>"
    using assms(1) ll k by (rule enriching_line_local)
  have b: "getPropertyAtPosition text n = Some \<lparr>key = k, value' = trim v\<rparr>"
    using assms(1) m by (simp add: getPropertyAtPosition_def)
  show ?thesis using a b c by (simp add: orUnknown_def)
qed

theorem key_value_line_witness:
  "lineAt tabSizeText 0 = Some tabSizeText
   \<and> regex_match keyValuePattern tabSizeText = Some [(2, ''4''), (1, ''editor.tabSize'')]
   \<and> getPropertyAtPosition_enriching exampleParse tabSizeText 0
       = Some \<lparr>key = ''editor.tabSize'', value' = ''4''\<rparr>
   \<and> getPropertyAtPosition tabSizeText 0 = Some \<lparr>key = ''editor.tabSize'', value' = ''4''\<rparr>
   \<and> lineAt quotedBeforeText 0 = Some quotedBeforeText
   \<and> regex_match keyValuePattern quotedBeforeText = Some [(2, ''1''), (1, ''a'')]
   \<and> getPropertyAtPosition_enriching exampleParse quotedBeforeText 0
       = Some \<lparr>key = ''a'', value' = ''1''\<rparr>
   \<and> getPropertyAtPosition quotedBeforeText 0 = Some \<lparr>key = ''a'', value' = ''1''\<rparr>
   \<and> lineAt spacesText 0 = Some spacesText
   \<and> regex_match keyValuePattern spacesText = Some [(2, '' ''), (1, ''a'')]
   \<and> getPropertyAtPosition_enriching exampleParse spacesText 0
       = Some \<lparr>key = ''a'', value' = ''unknown''\<rparr>
   \<and> getPropertyAtPosition spacesText 0 = Some \<lparr>key = ''a'', value' = []\<rparr>"
proof -
  have l1: "lineAt tabSizeText 0 = Some tabSizeText" by code_simp
  have m1: "regex_match keyValuePattern tabSizeText = Some [(2, ''4''), (1, ''editor.tabSize'')]"
    by code_simp
  have t1: "trim ''4'' = ''4''" "dropTrailingComma ''4'' = ''4''" by code_simp+
  from key_value_line [OF l1 m1, of exampleParse]
  have r1: "getPropertyAtPosition_enriching exampleParse tabSizeText 0
       = Some \<lparr>key = ''editor.tabSize'', value' = ''4''\<rparr>
   \<and> getPropertyAtPosition tabSizeText 0 = Some \<lparr>key = ''editor.tabSize'', value' = ''4''\<rparr>"
    by (simp add: t1)
  have l2: "lineAt quotedBeforeText 0 = Some quotedBeforeText" by code_simp
  have m2: "regex_match keyValuePattern quotedBeforeText = Some [(2, ''1''), (1, ''a'')]"
    by code_simp
  have t2: "trim ''1'' = ''1''" "dropTrailingComma ''1'' = ''1''" by code_simp+
  from key_value_line [OF l2 m2, of exampleParse]
  have r2: "getPropertyAtPosition_enriching exampleParse quotedBeforeText 0
       = Some \<lparr>key = ''a'', value' = ''1''\<rparr>
   \<and> getPropertyAtPosition quotedBeforeText 0 = Some \<lparr>key = ''a'', value' = ''1''\<rparr>"
    by (simp add: t2)
  have l3: "lineAt spacesText 0 = Some spacesText" by code_simp
  have m3: "regex_match keyValuePattern spacesText = Some [(2, '' ''), (1, ''a'')]"
    by code_simp
  have t3: "trim '' '' = []" "dropTrailingComma [] = []" by code_simp+
  from key_value_line [OF l3 m3, of exampleParse]
  have r3: "getPropertyAtPosition_enriching exampleParse spacesText 0
       = Some \<lparr>key = ''a'', value' = ''unknown''\<rparr>
   \<and> getPropertyAtPosition spacesText 0 = Some \<lparr>key = ''a'', value' = []\<rparr>"
    by (simp add: t3)
  show ?thesis using l1 m1 r1 l2 m2 r2 l3 m3 r3 by simp
qed

text \<open>
  Claim C1 does not hold of the code. The resolver with structural enrichment returns
  as soon as the line gave a key, before the document is parsed, so the search through
  the parsed document is never reached with a key. On line 4 of \<open>launchText\<close> the key
  \<open>type\<close> is a top-level property of the parsed document with the value \<open>node\<close>, which
  is what the enrichment would give; the resolver returns the value \<open>python\<close> of the
  line, for every \<open>JSON.parse\<close>.
\<close>

theorem enrichment_unreachable:
  "getPropertyAtPosition_enriching JSON_parse launchText 4
     = Some \<lparr>key = ''type'', value' = [dquote] @ ''python'' @ [dquote]\<rparr>
   \<and> exampleParse (cleanComments launchText) = Some launchJson
   \<and> enrich launchJson ''type'' (Some ([dquote] @ ''python'' @ [dquote]))
       = Some \<lparr>key = ''type'', value' = [dquote] @ ''node'' @ [dquote]\<rparr>"
proof -
  have l: "lineAt launchText 4 = Some (''      '' @ [dquote] @ ''type'' @ [dquote] @ '': '' @ [dquote] @ ''python'' @ [dquote])"
    by code_simp
  have ll: "lineLocal (''      '' @ [dquote] @ ''type'' @ [dquote] @ '': '' @ [dquote] @ ''python'' @ [dquote])
            = Some (Some ''type'', Some ([dquote] @ ''python'' @ [dquote]))"
    by code_simp
  have k: "''type'' \<noteq> []" by simp
  have a: "getPropertyAtPosition_enriching JSON_parse launchText 4
     = Some \<lparr>key = ''type'', value' = orUnknown (Some ([dquote] @ ''python'' @ [dquote]))\<rparr>"
    using l ll k by (rule enriching_line_local)
  have a': "orUnknown (Some ([dquote] @ ''python'' @ [dquote])) = [dquote] @ ''python'' @ [dquote]"
    by (simp add: orUnknown_def)
  have b: "exampleParse (cleanComments launchText) = Some launchJson" by code_simp
  have c: "enrich launchJson ''type'' (Some ([dquote] @ ''python'' @ [dquote]))
       = Some \<lparr>key = ''type'', value' = [dquote] @ ''node'' @ [dquote]\<rparr>" by code_simp
  show ?thesis using a b c unfolding a' by simp
qed

section \<open>Properties of the catalogue lookup\<close>

lemma getConfigDocumentation_present:
  "map_of (rev docs) k = Some e \<Longrightarrow> getConfigDocumentation docs k = Documented e"
  by (simp add: getConfigDocumentation_def js_get_def)

lemma getConfigDocumentation_absent:
  "map_of (rev docs) k = None \<Longrightarrow> k \<notin> set objectPrototypeMembers \<Longrightarrow>
   getConfigDocumentation docs k = Documented noDocumentation"
  by (simp add: getConfigDocumentation_def js_get_def)

lemma getConfigDocumentation_inherited:
  "map_of (rev docs) k = None \<Longrightarrow> k \<in> set objectPrototypeMembers \<Longrightarrow>
   getConfigDocumentation docs k = Inherited k"
  by (simp add: getConfigDocumentation_def js_get_def)

text \<open>
  Claim C5 does not hold of the code for the names of the members of
  \<open>Object.prototype\<close>. The name \<open>toString\<close> is not in the catalogue, and the lookup
  returns the inherited function instead of the entry that stands for missing
  documentation. (For every other absent name the lookup returns that entry, and for
  a name in the catalogue the stored entry: the three lemmas above.)
\<close>

theorem lookup_inherited_member:
  "map_of configDocs ''toString'' = None
   \<and> getConfigDocumentation configDocs ''toString'' = Inherited ''toString''
   \<and> getConfigDocumentation configDocs ''toString'' \<noteq> Documented noDocumentation"
proof -
  have a: "map_of configDocs ''toString'' = None" by code_simp
  have b: "map_of (rev configDocs) ''toString'' = None" by code_simp
  have c: "''toString'' \<in> set objectPrototypeMembers" by (simp add: objectPrototypeMembers_def)
  show ?thesis using a getConfigDocumentation_inherited [OF b c] by simp
qed

section \<open>Properties of the configuration file check\<close>

lemma take_eq_prefix: "take (length x) s = x \<longleftrightarrow> (\<exists>b. s = x @ b)"
proof
  assume "take (length x) s = x"
  then have "s = x @ drop (length x) s" by (metis append_take_drop_id)
  then show "\<exists>b. s = x @ b" ..
next
  assume "\<exists>b. s = x @ b"
  then show "take (length x) s = x" by auto
qed

lemma str_includes_iff: "str_includes s x \<longleftrightarrow> (\<exists>a b. s = a @ x @ b)"
proof (induction s)
  case Nil
  show ?case by auto
next
  case (Cons c cs)
  show ?case
  proof
    assume "str_includes (c # cs) x"
    then consider "take (length x) (c # cs) = x" | "str_includes cs x" by auto
    then show "\<exists>a b. c # cs = a @ x @ b"
    proof cases
      case 1
      then obtain b where "c # cs = x @ b" using take_eq_prefix by blast
      then have "c # cs = [] @ x @ b" by simp
      then show ?thesis by blast
    next
      case 2
      then obtain a b where "cs = a @ x @ b" using Cons by blast
      then have "c # cs = (c # a) @ x @ b" by simp
      then show ?thesis by blast
    qed
  next
    assume "\<exists>a b. c # cs = a @ x @ b"
    then obtain a b where ab: "c # cs = a @ x @ b" by blast
    show "str_includes (c # cs) x"
    proof (cases a)
      case Nil
      then have "take (length x) (c # cs) = x" using ab take_eq_prefix by auto
      then show ?thesis by simp
    next
      case (Cons d a')
      then have "cs = a' @ x @ b" using ab by simp
      then have "str_includes cs x" using Cons.IH by blast
      then show ?thesis by simp
    qed
  qed
qed

lemma splitOn_includes:
  "x \<in> set (splitOn sep cur p) \<Longrightarrow> \<exists>a b. cur @ p = a @ x @ b"
proof (induction p arbitrary: cur)
  case Nil
  then have "cur @ [] = [] @ x @ []" by simp
  then show ?case by blast
next
  case (Cons c cs)
  show ?case
  proof (cases "c = sep")
    case True
    with Cons.prems consider "x = cur" | "x \<in> set (splitOn sep [] cs)" by auto
    then show ?thesis
    proof cases
      case 1
      then have "cur @ c # cs = [] @ x @ (c # cs)" by simp
      then show ?thesis by blast
    next
      case 2
      then obtain a b where "[] @ cs = a @ x @ b" using Cons.IH by blast
      then have "cur @ c # cs = (cur @ c # a) @ x @ b" by simp
      then show ?thesis by blast
    qed
  next
    case False
    with Cons.prems have "x \<in> set (splitOn sep (cur @ [c]) cs)" by simp
    then obtain a b where "(cur @ [c]) @ cs = a @ x @ b" using Cons.IH by blast
    then show ?thesis by auto
  qed
qed

lemma isConfigFile_iff:
  "isConfigFile p \<longleftrightarrow>
     (\<exists>a b. p = a @ ''.vscode'' @ b)
     \<and> basename p \<in> {''settings.json'', ''launch.json'', ''extensions.json''}"
  by (auto simp: isConfigFile_def Let_def str_includes_iff)

lemma in_vscode_accepted:
  assumes "residesInVscode p"
    and "basename p \<in> {''settings.json'', ''launch.json'', ''extensions.json''}"
  shows "isConfigFile p"
proof -
  from assms(1) have "''.vscode'' \<in> set (directoriesOf p)"
    unfolding residesInVscode_def by (metis last_in_set)
  then have "''.vscode'' \<in> set (splitOn CHR ''/'' [] p)"
    unfolding directoriesOf_def by (meson in_set_butlastD filter_is_subset subsetD)
  then obtain a b where "[] @ p = a @ ''.vscode'' @ b" using splitOn_includes by blast
  then show ?thesis using assms(2) unfolding isConfigFile_iff by auto
qed

text \<open>
  So the check accepts every well-known file that lies in a directory named
  \<open>.vscode\<close>; what it accepts beyond those is the subject of the claim.
\<close>

text \<open>
  Claim C9 does not hold of the code. The check asks whether the path contains the
  text \<open>.vscode\<close>, not whether the file lies in a directory of that name: the machine
  settings of a remote server installation lie in the directory \<open>Machine\<close>, below
  \<open>.vscode-server\<close>, and are accepted.
\<close>

theorem isConfigFile_substring:
  "isConfigFile remoteSettings
   \<and> basename remoteSettings = ''settings.json''
   \<and> directoriesOf remoteSettings = [''home'', ''u'', ''.vscode-server'', ''data'', ''Machine'']
   \<and> \<not> residesInVscode remoteSettings"
  by code_simp

section \<open>The wildcard rule of the analyzer\<close>

lemma replace_first_only:
  "c \<notin> set xs \<Longrightarrow> replace_first c r (xs @ c # ys) = xs @ r @ ys"
  by (induction xs) auto

lemma search_Some_iff:
  "search m r acc s \<noteq> None \<longleftrightarrow> (\<exists>a b. s = a @ b \<and> ms m r b [] \<noteq> [])"
proof (induction s arbitrary: acc)
  case Nil
  show ?case by (auto split: list.splits)
next
  case (Cons c cs)
  show ?case
  proof (cases "ms m r (c # cs) []")
    case Nil
    then have "search m r acc (c # cs) = search m r (acc @ [c]) cs" by simp
    then have "search m r acc (c # cs) \<noteq> None \<longleftrightarrow> (\<exists>a b. cs = a @ b \<and> ms m r b [] \<noteq> [])"
      using Cons by simp
    also have "\<dots> \<longleftrightarrow> (\<exists>a b. c # cs = a @ b \<and> ms m r b [] \<noteq> [])"
    proof
      assume "\<exists>a b. cs = a @ b \<and> ms m r b [] \<noteq> []"
      then obtain a b where "cs = a @ b" "ms m r b [] \<noteq> []" by blast
      then have "c # cs = (c # a) @ b \<and> ms m r b [] \<noteq> []" by simp
      then show "\<exists>a b. c # cs = a @ b \<and> ms m r b [] \<noteq> []" by blast
    next
      assume "\<exists>a b. c # cs = a @ b \<and> ms m r b [] \<noteq> []"
      then obtain a b where ab: "c # cs = a @ b" "ms m r b [] \<noteq> []" by blast
      show "\<exists>a b. cs = a @ b \<and> ms m r b [] \<noteq> []"
      proof (cases a)
        case Nil
        then show ?thesis using ab \<open>ms m r (c # cs) [] = []\<close> by simp
      next
        case (Cons d a')
        then have "cs = a' @ b" using ab by simp
        then show ?thesis using ab(2) by blast
      qed
    qed
    finally show ?thesis .
  next
    case (Cons x xs)
    then have "search m r acc (c # cs) \<noteq> None" by (cases x) simp
    moreover have "c # cs = [] @ (c # cs) \<and> ms m r (c # cs) [] \<noteq> []" using Cons by simp
    ultimately show ?thesis by blast
  qed
qed

lemma py_tail:
  "ms m (Seq (Atom CDot) (Seq (Atom (CChar CHR ''p'')) (Seq (Atom (CChar CHR ''y'')) Empty))) s caps \<noteq> []
   \<longleftrightarrow> (\<exists>c post. s = c # ''py'' @ post \<and> \<not> isLineTerminator c)"
proof (cases s)
  case Nil
  then show ?thesis by simp
next
  case s1: (Cons c s')
  show ?thesis
  proof (cases s')
    case Nil
    then show ?thesis using s1 by simp
  next
    case s2: (Cons d s'')
    show ?thesis
    proof (cases s'')
      case Nil
      then show ?thesis using s1 s2 by simp
    next
      case (Cons e post)
      then show ?thesis using s1 s2 by auto
    qed
  qed
qed

lemma anyThenPy_ms:
  "ms m anyThenPy s [] \<noteq> [] \<longleftrightarrow>
     (\<exists>u c post. s = u @ c # ''py'' @ post \<and> (\<forall>x \<in> set u. \<not> isLineTerminator x)
        \<and> \<not> isLineTerminator c)"
proof -
  let ?T = "Seq (Atom CDot) (Seq (Atom (CChar CHR ''p'')) (Seq (Atom (CChar CHR ''y'')) Empty))"
  let ?n = "length (takeWhile (in_class CDot) s)"
  have e: "ms m anyThenPy s [] =
           concat (map (\<lambda>k. ms m ?T (drop k s) []) (rev [0 ..< Suc ?n]))"
    by (simp add: anyThenPy_def comp_def del: upt_Suc ms.simps(1))
  have "ms m anyThenPy s [] \<noteq> [] \<longleftrightarrow> (\<exists>k \<le> ?n. ms m ?T (drop k s) [] \<noteq> [])"
    unfolding e by (auto simp del: upt_Suc ms.simps simp: less_Suc_eq_le)
  also have "\<dots> \<longleftrightarrow> (\<exists>k \<le> ?n. \<exists>c post. drop k s = c # ''py'' @ post \<and> \<not> isLineTerminator c)"
    unfolding py_tail ..
  also have "\<dots> \<longleftrightarrow> (\<exists>u c post. s = u @ c # ''py'' @ post \<and> (\<forall>x \<in> set u. \<not> isLineTerminator x)
        \<and> \<not> isLineTerminator c)"
  proof
    assume "\<exists>k \<le> ?n. \<exists>c post. drop k s = c # ''py'' @ post \<and> \<not> isLineTerminator c"
    then obtain k c post where k: "k \<le> ?n" and d: "drop k s = c # ''py'' @ post"
      and c: "\<not> isLineTerminator c" by blast
    have "s = take k s @ c # ''py'' @ post" using d by (metis append_take_drop_id)
    moreover have "\<forall>x \<in> set (take k s). \<not> isLineTerminator x"
    proof
      fix x assume "x \<in> set (take k s)"
      then have "x \<in> set (take ?n s)" using k by (meson set_take_subset_set_take subsetD)
      then have "x \<in> set (takeWhile (in_class CDot) s)"
        using takeWhile_eq_take [of "in_class CDot" s] by simp
      then show "\<not> isLineTerminator x" using set_takeWhileD by fastforce
    qed
    ultimately show "\<exists>u c post. s = u @ c # ''py'' @ post \<and> (\<forall>x \<in> set u. \<not> isLineTerminator x)
        \<and> \<not> isLineTerminator c" using c by blast
  next
    assume "\<exists>u c post. s = u @ c # ''py'' @ post \<and> (\<forall>x \<in> set u. \<not> isLineTerminator x)
        \<and> \<not> isLineTerminator c"
    then obtain u c post where s: "s = u @ c # ''py'' @ post"
      and u: "\<forall>x \<in> set u. \<not> isLineTerminator x" and c: "\<not> isLineTerminator c" by blast
    have "takeWhile (in_class CDot) s = u @ takeWhile (in_class CDot) (c # ''py'' @ post)"
      unfolding s using u by (simp add: takeWhile_append2)
    then have "length u \<le> ?n" by simp
    moreover have "drop (length u) s = c # ''py'' @ post" unfolding s by simp
    ultimately show "\<exists>k \<le> ?n. \<exists>c post. drop k s = c # ''py'' @ post \<and> \<not> isLineTerminator c"
      using c by blast
  qed
  finally show ?thesis .
qed

lemma anyThenPy_test:
  "regex_test anyThenPy f \<longleftrightarrow> (\<exists>pre c post. f = pre @ c # ''py'' @ post \<and> \<not> isLineTerminator c)"
proof
  assume "regex_test anyThenPy f"
  then obtain a b where "f = a @ b" "ms False anyThenPy b [] \<noteq> []"
    unfolding regex_test_def search_Some_iff by blast
  then obtain u c post where "f = a @ u @ c # ''py'' @ post" "\<not> isLineTerminator c"
    unfolding anyThenPy_ms by blast
  then have "f = (a @ u) @ c # ''py'' @ post \<and> \<not> isLineTerminator c" by simp
  then show "\<exists>pre c post. f = pre @ c # ''py'' @ post \<and> \<not> isLineTerminator c" by blast
next
  assume "\<exists>pre c post. f = pre @ c # ''py'' @ post \<and> \<not> isLineTerminator c"
  then obtain pre c post where f: "f = pre @ c # ''py'' @ post" and c: "\<not> isLineTerminator c" by blast
  have "c # ''py'' @ post = [] @ c # ''py'' @ post \<and> (\<forall>x \<in> set []. \<not> isLineTerminator x) \<and> \<not> isLineTerminator c"
    using c by simp
  then have "ms False anyThenPy (c # ''py'' @ post) [] \<noteq> []" unfolding anyThenPy_ms by blast
  then show "regex_test anyThenPy f" unfolding regex_test_def search_Some_iff using f by blast
qed

lemma glob_literal: "CHR ''*'' \<notin> set ps \<Longrightarrow> glob_match ps s \<longleftrightarrow> s = ps"
  by (induction ps arbitrary: s) (auto split: list.splits)

lemma glob_star_py: "glob_match ''*.py'' f \<longleftrightarrow> (\<exists>pre. f = pre @ ''.py'')"
proof -
  have l: "glob_match ''.py'' s \<longleftrightarrow> s = ''.py''" for s
    by (rule glob_literal) simp
  have "glob_match ''*.py'' f \<longleftrightarrow> (\<exists>k \<le> length f. drop k f = ''.py'')"
    unfolding glob_match.simps(2) [of "CHR ''*''"] l
    by (auto simp add: list_ex_iff less_Suc_eq_le simp del: upt_Suc)
  also have "\<dots> \<longleftrightarrow> (\<exists>pre. f = pre @ ''.py'')"
  proof
    assume "\<exists>k \<le> length f. drop k f = ''.py''"
    then obtain k where "drop k f = ''.py''" by blast
    then have "f = take k f @ ''.py''" by (metis append_take_drop_id)
    then show "\<exists>pre. f = pre @ ''.py''" ..
  next
    assume "\<exists>pre. f = pre @ ''.py''"
    then obtain pre where f: "f = pre @ ''.py''" ..
    then have "length pre \<le> length f \<and> drop (length pre) f = ''.py''" by simp
    then show "\<exists>k \<le> length f. drop k f = ''.py''" by blast
  qed
  finally show ?thesis .
qed

lemma glob_py_implies_regex: "glob_match ''*.py'' f \<Longrightarrow> regex_test anyThenPy f"
proof -
  assume "glob_match ''*.py'' f"
  then obtain pre where "f = pre @ ''.py''" unfolding glob_star_py ..
  then have "f = pre @ CHR ''.'' # ''py'' @ [] \<and> \<not> isLineTerminator CHR ''.''"
    by (simp add: isLineTerminator_def)
  then show ?thesis unfolding anyThenPy_test by blast
qed

text \<open>
  Claim C10. Only the first \<open>*\<close> of a pattern is replaced by \<open>.*\<close>; the result is
  compiled as a regular expression, in which the \<open>.\<close> before \<open>py\<close> stands for any
  character, and tested without anchors: an entry satisfies \<open>*.py\<close> exactly when it
  holds \<open>py\<close> after some character. The entry \<open>happy\<close> does not match \<open>*.py\<close> read as
  a glob, yet the pattern counts as matched: in a directory that holds only \<open>happy\<close>
  the signature Python has one of its five checks and the confidence 20.
\<close>

theorem wildcard_is_unanchored_regex:
  "replace_first CHR ''*'' ''.*'' ''*.py'' = ''.*.py''
   \<and> replace_first CHR ''*'' ''.*'' ''*a*'' = ''.*a*''
   \<and> compile ''.*.py'' = Compiled anyThenPy
   \<and> (\<forall>f. regex_test anyThenPy f \<longleftrightarrow>
          (\<exists>pre c post. f = pre @ c # ''py'' @ post \<and> \<not> isLineTerminator c))
   \<and> \<not> glob_match ''*.py'' ''happy''
   \<and> patternMatched happy [''happy''] ''*.py''
   \<and> map confidence (analyzeProject happy ''/ws'') = [0, 0, 20]"
proof -
  have a: "replace_first CHR ''*'' ''.*'' ''*.py'' = ''.*.py''" by code_simp
  have b: "replace_first CHR ''*'' ''.*'' ''*a*'' = ''.*a*''" by code_simp
  have c: "compile ''.*.py'' = Compiled anyThenPy" by code_simp
  have d: "\<not> glob_match ''*.py'' ''happy''" by code_simp
  have e: "patternMatched happy [''happy''] ''*.py''" by code_simp
  have f: "map confidence (analyzeProject happy ''/ws'') = [0, 0, 20]" by code_simp
  show ?thesis using a b c d e f anyThenPy_test by blast
qed

end
